theory Spec2Isabelle
  imports Main
begin

section \<open>Data model of the scraper\<close>

text \<open>
  The development embeds \<^verbatim>\<open>src/src/scraper/scraper.py\<close> (class \<^verbatim>\<open>Scraper\<close>).
  Python dictionaries with a fixed set of keys are records; a key that the code only ever
  reads with \<^verbatim>\<open>.get(key, default)\<close> is a field that starts at that default.
  Time stamps (\<^verbatim>\<open>scraped_at\<close>, \<^verbatim>\<open>timestamp\<close>), the politeness delay, logging
  and the floating-point average of the summary are left out: no operation of the code
  branches on them.
\<close>

type_synonym url = string
type_synonym path = string

text \<open>The dictionary \<^verbatim>\<open>build_info\<close> built by \<^verbatim>\<open>_extract_build_info\<close> and
  completed by \<^verbatim>\<open>extract_builds_from_category\<close> and
  \<^verbatim>\<open>download_all_images_for_build\<close>.\<close>

record build =
  title :: string
  build_url :: url
  tags :: "string list"
  category_url :: url
  image_urls :: "url list"
  local_image_paths :: "path list"
  images_count :: nat
  build_directory :: "string option"

text \<open>The dictionary \<^verbatim>\<open>results\<close> returned by \<^verbatim>\<open>scrape\<close>.\<close>

record results =
  total_builds :: nat
  successful_builds :: nat
  failed_builds :: nat
  total_images_downloaded :: nat

text \<open>The dictionary written by \<^verbatim>\<open>_save_checkpoint\<close>.\<close>

record checkpoint =
  current_category_idx :: nat
  current_build_idx :: nat
  total_categories :: nat
  total_builds_processed :: nat

text \<open>A JSON file on disk: absent, present but not readable or not parseable, or holding
  a value. A file that parses holds what the code writes into it: a checkpoint dictionary
  with its indexes, or an array of build records.\<close>

datatype 'a file_state = Missing | Unreadable | Holds 'a

text \<open>What an attempt to write a file does: the file is rewritten, the \<^verbatim>\<open>open\<close> is
  refused (the file keeps its content), or the dump breaks off after the file has been
  truncated.\<close>

datatype write_outcome = Written | Refused | Torn

datatype exn = OSError | JSONDecodeError | NoCategoryLinks | NameError | AttributeError | Raised

text \<open>The observable actions of a run, in the order in which the code performs them: the
  network request of \<^verbatim>\<open>download_image\<close> and the calls of \<^verbatim>\<open>_save_metadata\<close>,
  \<^verbatim>\<open>_save_checkpoint\<close> and \<^verbatim>\<open>_clear_checkpoint\<close>.\<close>

datatype event =
    EvFetchImage url path
  | EvSaveMetadata "build list"
  | EvSaveCheckpoint checkpoint
  | EvClearCheckpoint

text \<open>
  The environment of one run. The HTML parsing is the job of BeautifulSoup, so a page is
  given by what the selectors of the code find on it:
  \<^item> \<open>home_links\<close>: \<open>None\<close> when \<^verbatim>\<open>fetch_page(base_url)\<close> returns nothing, otherwise
    the joined URLs of the links under \<^verbatim>\<open>li.cats-*\<close>, in page order;
  \<^item> \<open>category_items\<close>: \<open>None\<close> when the category page cannot be fetched, otherwise one
    entry per \<^verbatim>\<open>product-box\<close>: the text and joined target of its \<^verbatim>\<open>h3.name a\<close>
    link, or \<open>None\<close> when the box has no such link;
  \<^item> \<open>detail_page\<close>: \<open>None\<close> when the detail page cannot be fetched, otherwise the
    image sources under \<^verbatim>\<open>#main_pics\<close> and the tags of \<^verbatim>\<open>td.value.tags\<close>;
  \<^item> \<open>image_ok\<close>: the request, the decoding and the saving of an image all succeed;
  \<^item> \<open>mkdir_ok d\<close>: the directory \<open>d\<close> of a build can be created;
  \<^item> \<open>item_raises c b\<close>: \<^verbatim>\<open>self.metadata.append(build)\<close> on line 519 raises for
    build \<open>b\<close> of category \<open>c\<close>. Every other statement of the body of that
    \<^verbatim>\<open>try\<close> is a dictionary update or a call that catches \<^verbatim>\<open>Exception\<close> itself.
    The append raises when \<^verbatim>\<open>self.metadata\<close> is not a list, which it is after
    \<^verbatim>\<open>__init__\<close> and stays unless a run that resumes replaces it by what
    \<^verbatim>\<open>json.load\<close> returned (line 470); so the oracle is consulted in resuming runs
    only. The metadata file of the model holds a list, and the oracle stands for a
    loaded value that cannot take the build;
  \<^item> \<open>category_raises c\<close>: an exception escapes at the call on line 497. The callee
    catches \<^verbatim>\<open>Exception\<close> itself, so this stands for whatever else Python may raise
    there; it exists to give the outer handler of \<^verbatim>\<open>scrape\<close> a meaning;
  \<^item> \<open>meta_write n\<close>, \<open>ckpt_write c b\<close>, \<open>unlink_ok\<close>: what the file system does with
    the write of \<open>n\<close> records, with the write of the checkpoint for position \<open>(c, b)\<close>, and
    with the removal of the checkpoint file. \<open>Refused\<close> is also what any other exception
    in the body of \<^verbatim>\<open>_save_checkpoint\<close> before the file is opened amounts to, such as
    \<^verbatim>\<open>len(self.metadata)\<close> on a loaded value that has no length.
\<close>

record world =
  home_links :: "url list option"
  category_items :: "url \<Rightarrow> (string \<times> url) option list option"
  detail_page :: "url \<Rightarrow> (url list \<times> string list) option"
  image_ok :: "url \<Rightarrow> bool"
  mkdir_ok :: "string \<Rightarrow> bool"
  item_raises :: "nat \<Rightarrow> nat \<Rightarrow> bool"
  category_raises :: "nat \<Rightarrow> bool"
  meta_write :: "nat \<Rightarrow> write_outcome"
  ckpt_write :: "nat \<Rightarrow> nat \<Rightarrow> write_outcome"
  unlink_ok :: bool

text \<open>The \<^verbatim>\<open>Scraper\<close> object together with the files it owns and the actions performed
  so far. \<open>checkpoint_data = None\<close> is the empty dictionary \<^verbatim>\<open>{}\<close>.\<close>

record scraper =
  resume_flag :: bool
  checkpoint_data :: "checkpoint option"
  metadata :: "build list"
  checkpoint_file :: "checkpoint file_state"
  metadata_file :: "build list file_state"
  image_files :: "path list"
  trace :: "event list"

section \<open>Files\<close>

fun file_exists :: "'a file_state \<Rightarrow> bool" where
  "file_exists Missing = False"
| "file_exists Unreadable = True"
| "file_exists (Holds v) = True"

text \<open>\<^verbatim>\<open>open\<close> followed by \<^verbatim>\<open>json.load\<close>.\<close>

fun read_json :: "'a file_state \<Rightarrow> exn + 'a" where
  "read_json Missing = Inl OSError"
| "read_json Unreadable = Inl JSONDecodeError"
| "read_json (Holds v) = Inr v"

fun write_json :: "write_outcome \<Rightarrow> 'a \<Rightarrow> 'a file_state \<Rightarrow> exn + 'a file_state" where
  "write_json Written v f = Inr (Holds v)"
| "write_json Refused v f = Inl OSError"
| "write_json Torn v f = Inl OSError"

text \<open>The file as an exception of the write leaves it.\<close>

fun after_failed_write :: "write_outcome \<Rightarrow> 'a file_state \<Rightarrow> 'a file_state" where
  "after_failed_write Torn f = Unreadable"
| "after_failed_write wo f = f"

text \<open>\<^verbatim>\<open>_load_checkpoint\<close>: the body of the \<^verbatim>\<open>try\<close> returns the loaded value or falls
  through; the handler and the fall-through both end in \<^verbatim>\<open>return {}\<close>.\<close>

definition load_checkpoint_body :: "checkpoint file_state \<Rightarrow> exn + checkpoint option" where
  "load_checkpoint_body f =
     (if file_exists f then
        (case read_json f of Inl e \<Rightarrow> Inl e | Inr c \<Rightarrow> Inr (Some c))
      else Inr None)"

definition load_checkpoint :: "checkpoint file_state \<Rightarrow> exn + checkpoint option" where
  "load_checkpoint f =
     (case load_checkpoint_body f of Inl e \<Rightarrow> Inr None | Inr c \<Rightarrow> Inr c)"

text \<open>\<^verbatim>\<open>_load_metadata\<close>, of the same shape, with \<^verbatim>\<open>return []\<close>.\<close>

definition load_metadata_body :: "build list file_state \<Rightarrow> exn + build list" where
  "load_metadata_body f =
     (if file_exists f then
        (case read_json f of Inl e \<Rightarrow> Inl e | Inr m \<Rightarrow> Inr m)
      else Inr [])"

definition load_metadata :: "build list file_state \<Rightarrow> exn + build list" where
  "load_metadata f =
     (case load_metadata_body f of Inl e \<Rightarrow> Inr [] | Inr m \<Rightarrow> Inr m)"

text \<open>\<^verbatim>\<open>_save_metadata\<close>: a full rewrite of the metadata file; a failing write is
  logged and swallowed.\<close>

definition save_metadata :: "world \<Rightarrow> scraper \<Rightarrow> scraper" where
  "save_metadata w st =
     (let wo = meta_write w (length (metadata st)) in
      st\<lparr>metadata_file :=
            (case write_json wo (metadata st) (metadata_file st) of
               Inl e \<Rightarrow> after_failed_write wo (metadata_file st)
             | Inr f \<Rightarrow> f),
         trace := trace st @ [EvSaveMetadata (metadata st)]\<rparr>)"

text \<open>\<^verbatim>\<open>_save_checkpoint\<close>: the call is recorded, and the file is rewritten unless
  the body of the \<^verbatim>\<open>try\<close> raises; the exception is logged and swallowed.\<close>

definition save_checkpoint :: "world \<Rightarrow> nat \<Rightarrow> nat \<Rightarrow> nat \<Rightarrow> scraper \<Rightarrow> scraper" where
  "save_checkpoint w category_idx build_idx n_categories st =
     (let ck = \<lparr>current_category_idx = category_idx, current_build_idx = build_idx,
                total_categories = n_categories,
                total_builds_processed = length (metadata st)\<rparr>;
          wo = ckpt_write w category_idx build_idx in
      st\<lparr>checkpoint_file :=
            (case write_json wo ck (checkpoint_file st) of
               Inl e \<Rightarrow> after_failed_write wo (checkpoint_file st)
             | Inr f \<Rightarrow> f),
         trace := trace st @ [EvSaveCheckpoint ck]\<rparr>)"

text \<open>\<^verbatim>\<open>_clear_checkpoint\<close>: the file is unlinked when it exists; a failing unlink is
  logged and swallowed.\<close>

definition clear_checkpoint :: "world \<Rightarrow> scraper \<Rightarrow> scraper" where
  "clear_checkpoint w st =
     st\<lparr>checkpoint_file :=
           (if file_exists (checkpoint_file st) \<and> unlink_ok w then Missing
            else checkpoint_file st),
        trace := trace st @ [EvClearCheckpoint]\<rparr>"

text \<open>\<^verbatim>\<open>__init__\<close>: the object starts with no metadata and with the checkpoint
  loaded from disk. The creation of the output directories is not tracked.\<close>

definition new_scraper ::
  "bool \<Rightarrow> checkpoint file_state \<Rightarrow> build list file_state \<Rightarrow> path list \<Rightarrow> scraper" where
  "new_scraper resume ckf mf imgs =
     \<lparr>resume_flag = resume,
      checkpoint_data = (case load_checkpoint ckf of Inl e \<Rightarrow> None | Inr c \<Rightarrow> c),
      metadata = [],
      checkpoint_file = ckf, metadata_file = mf, image_files = imgs, trace = []\<rparr>"

section \<open>Pages\<close>

text \<open>The slice \<^verbatim>\<open>xs[:n]\<close> of Python: a negative bound counts from the end.\<close>

definition py_slice_to :: "int \<Rightarrow> 'a list \<Rightarrow> 'a list" where
  "py_slice_to n xs =
     (if 0 \<le> n then take (nat n) xs else take (length xs - nat (- n)) xs)"

text \<open>The loop of \<^verbatim>\<open>get_category_urls\<close> that appends each URL not yet in the list.\<close>

fun append_new :: "url list \<Rightarrow> url list \<Rightarrow> url list" where
  "append_new category_urls [] = category_urls"
| "append_new category_urls (full_url # links) =
     append_new (if full_url \<in> set category_urls then category_urls
                 else category_urls @ [full_url]) links"

text \<open>\<^verbatim>\<open>get_category_urls\<close>: the body of its \<^verbatim>\<open>try\<close> raises when the home page has
  no category link; the handler logs, and the function returns the list built so far,
  which is empty at that point.\<close>

definition get_category_urls_body :: "world \<Rightarrow> int \<Rightarrow> exn + url list" where
  "get_category_urls_body w max_categories =
     (case home_links w of
        None \<Rightarrow> Inr []
      | Some category_links \<Rightarrow>
          if category_links = [] then Inl NoCategoryLinks
          else Inr (append_new [] (py_slice_to max_categories category_links)))"

definition get_category_urls :: "world \<Rightarrow> int \<Rightarrow> url list" where
  "get_category_urls w max_categories =
     (case get_category_urls_body w max_categories of Inl e \<Rightarrow> [] | Inr urls \<Rightarrow> urls)"

text \<open>\<^verbatim>\<open>_extract_build_info\<close>: without a link \<^verbatim>\<open>build_url\<close> is never bound, the
  test \<^verbatim>\<open>not build_url\<close> raises, and the handler returns \<^verbatim>\<open>None\<close>.\<close>

definition extract_build_info_body :: "(string \<times> url) option \<Rightarrow> url \<Rightarrow> exn + build option" where
  "extract_build_info_body item cat_url =
     (case item of
        None \<Rightarrow> Inl NameError
      | Some (link_text, link_url) \<Rightarrow>
          if link_url = [] then Inr None
          else Inr (Some \<lparr>title = (if link_text = [] then ''Unknown Build'' else link_text),
                          build_url = link_url, tags = [], category_url = cat_url,
                          image_urls = [], local_image_paths = [], images_count = 0,
                          build_directory = None\<rparr>))"

definition extract_build_info :: "(string \<times> url) option \<Rightarrow> url \<Rightarrow> build option" where
  "extract_build_info item cat_url =
     (case extract_build_info_body item cat_url of Inl e \<Rightarrow> None | Inr b \<Rightarrow> b)"

text \<open>\<^verbatim>\<open>_extract_images_and_tags\<close>: the empty dictionary when the page cannot be
  fetched, otherwise the image URLs and the tags.\<close>

definition extract_images_and_tags :: "world \<Rightarrow> url \<Rightarrow> (url list \<times> string list) option" where
  "extract_images_and_tags w b_url = detail_page w b_url"

text \<open>The body of the loop of \<^verbatim>\<open>extract_builds_from_category\<close>: \<open>None\<close> when the
  item is skipped (\<^verbatim>\<open>continue\<close>), otherwise the build that is appended.\<close>

definition build_of_item :: "world \<Rightarrow> url \<Rightarrow> (string \<times> url) option \<Rightarrow> build option" where
  "build_of_item w cat_url item =
     (case extract_build_info item cat_url of
        None \<Rightarrow> None
      | Some build_info \<Rightarrow>
          if build_url build_info \<noteq> [] then
            (case extract_images_and_tags w (build_url build_info) of
               None \<Rightarrow> None
             | Some (imgs, tgs) \<Rightarrow>
                 if imgs = [] \<or> tgs = [] then None
                 else Some (build_info\<lparr>tags := tgs, image_urls := imgs\<rparr>))
          else Some build_info)"

definition extract_builds_from_category :: "world \<Rightarrow> url \<Rightarrow> build list" where
  "extract_builds_from_category w cat_url =
     (case category_items w cat_url of
        None \<Rightarrow> []
      | Some build_items \<Rightarrow> List.map_filter (build_of_item w cat_url) build_items)"

section \<open>Images\<close>

text \<open>Decimal digits of a number and zero padding, for the formats \<^verbatim>\<open>{:05d}\<close> and
  \<^verbatim>\<open>{:03d}\<close>.\<close>

fun decimal :: "nat \<Rightarrow> string" where
  "decimal n =
     (if n < 10 then [char_of (48 + n)]
      else decimal (n div 10) @ [char_of (48 + n mod 10)])"

definition zero_pad :: "nat \<Rightarrow> string \<Rightarrow> string" where
  "zero_pad width s = replicate (width - length s) (CHR ''0'') @ s"

text \<open>\<^verbatim>\<open>str.isalnum\<close>. A character of the model is a code point below 256: the
  digits and letters of ASCII, and in the upper half the letters, the superscript digits
  and the fractions of Latin-1.\<close>

definition is_alnum :: "char \<Rightarrow> bool" where
  "is_alnum c =
     (let n = (of_char c :: nat) in
      (48 \<le> n \<and> n \<le> 57) \<or> (65 \<le> n \<and> n \<le> 90) \<or> (97 \<le> n \<and> n \<le> 122)
      \<or> n \<in> {170, 178, 179, 181, 185, 186, 188, 189, 190}
      \<or> (192 \<le> n \<and> n \<le> 214) \<or> (216 \<le> n \<and> n \<le> 246) \<or> (248 \<le> n \<and> n \<le> 255))"

text \<open>The directory name \<^verbatim>\<open>build_id\<close> and the path of an image below
  \<^verbatim>\<open>images_dir\<close>.\<close>

definition build_dir_name :: "nat \<Rightarrow> string \<Rightarrow> string" where
  "build_dir_name build_idx ttl =
     take 50 (filter (\<lambda>c. is_alnum c \<or> c = CHR ''_'' \<or> c = CHR ''-'')
                (''build_'' @ zero_pad 5 (decimal build_idx) @ ''_'' @ take 30 ttl))"

definition image_path :: "string \<Rightarrow> nat \<Rightarrow> path" where
  "image_path build_dir img_idx =
     build_dir @ ''/image_'' @ zero_pad 3 (decimal img_idx) @ ''.jpg''"

text \<open>\<^verbatim>\<open>download_image\<close>: one network request; the file exists afterwards when
  everything succeeded; any exception gives \<^verbatim>\<open>False\<close>.\<close>

definition download_image :: "world \<Rightarrow> url \<Rightarrow> path \<Rightarrow> scraper \<Rightarrow> bool \<times> scraper" where
  "download_image w image_url save_path st =
     (let st1 = st\<lparr>trace := trace st @ [EvFetchImage image_url save_path]\<rparr> in
      if image_ok w image_url
      then (True, st1\<lparr>image_files := save_path # image_files st1\<rparr>)
      else (False, st1))"

text \<open>The body of the loop of \<^verbatim>\<open>download_all_images_for_build\<close> for one image:
  an existing file is taken as it is, without a request.\<close>

definition acquire_image ::
  "world \<Rightarrow> url \<Rightarrow> path \<Rightarrow> path list \<times> scraper \<Rightarrow> path list \<times> scraper" where
  "acquire_image w img_url save_path acc =
     (case acc of (paths, st) \<Rightarrow>
        if save_path \<in> set (image_files st) then (paths @ [save_path], st)
        else (case download_image w img_url save_path st of
                (ok, st') \<Rightarrow> (if ok then paths @ [save_path] else paths, st')))"

fun download_images ::
  "world \<Rightarrow> string \<Rightarrow> nat \<Rightarrow> url list \<Rightarrow> path list \<times> scraper \<Rightarrow> path list \<times> scraper" where
  "download_images w build_dir img_idx [] acc = acc"
| "download_images w build_dir img_idx (img_url # rest) acc =
     download_images w build_dir (Suc img_idx) rest
       (acquire_image w img_url (image_path build_dir img_idx) acc)"

text \<open>The body of the outer \<^verbatim>\<open>try\<close> of \<^verbatim>\<open>download_all_images_for_build\<close>
  (lines 373 to 407), for the build \<open>b0\<close> whose image fields have been reset: it raises
  when the directory cannot be created, before any image is requested.\<close>

definition download_all_images_body ::
  "world \<Rightarrow> build \<Rightarrow> nat \<Rightarrow> scraper \<Rightarrow> exn + build \<times> scraper" where
  "download_all_images_body w b0 build_idx st =
     (let build_dir = build_dir_name build_idx (title b0) in
      if \<not> mkdir_ok w build_dir then Inl OSError
      else
        (case download_images w build_dir 0 (image_urls b0) ([], st) of
           (paths, st') \<Rightarrow>
             Inr (b0\<lparr>local_image_paths := paths, images_count := length paths,
                      build_directory := Some build_dir\<rparr>, st')))"

text \<open>\<^verbatim>\<open>download_all_images_for_build\<close>: the handler of the outer \<^verbatim>\<open>try\<close> logs,
  and the build is returned as the exception left it.\<close>

definition download_all_images_for_build ::
  "world \<Rightarrow> build \<Rightarrow> nat \<Rightarrow> scraper \<Rightarrow> build \<times> scraper" where
  "download_all_images_for_build w build_info build_idx st =
     (let b0 = build_info\<lparr>local_image_paths := [], images_count := 0\<rparr> in
      if build_url build_info = [] then (b0, st)
      else
        (case download_all_images_body w b0 build_idx st of
           Inl e \<Rightarrow> (b0, st)
         | Inr r \<Rightarrow> r))"

section \<open>The crawl\<close>

text \<open>One iteration of the inner loop of \<^verbatim>\<open>scrape\<close> (lines 502 to 531). The body of the
  \<^verbatim>\<open>try\<close> returns the exception it ended with, if any, together with the state it
  left behind; the handler counts a failure and saves the checkpoint. \<open>loaded\<close> says that
  this run has replaced \<^verbatim>\<open>self.metadata\<close> by the loaded metadata (line 470); only then
  can the append on line 519 raise, and it does so after the images have been downloaded
  and the outcome has been counted.\<close>

definition process_build_body ::
  "world \<Rightarrow> bool \<Rightarrow> nat \<Rightarrow> nat \<Rightarrow> nat \<Rightarrow> build \<Rightarrow> scraper \<times> results \<Rightarrow>
   exn option \<times> scraper \<times> results" where
  "process_build_body w loaded n_categories cat_idx build_idx bld sr =
     (case sr of (st, res) \<Rightarrow>
        let global_build_idx = total_builds res;
            res1 = res\<lparr>total_builds := total_builds res + 1\<rparr>
        in (case download_all_images_for_build w bld global_build_idx st of
              (bld', st1) \<Rightarrow>
                let res2 = (if images_count bld' > 0
                            then res1\<lparr>successful_builds := successful_builds res1 + 1,
                                      total_images_downloaded :=
                                        total_images_downloaded res1 + images_count bld'\<rparr>
                            else res1\<lparr>failed_builds := failed_builds res1 + 1\<rparr>)
                in if loaded \<and> item_raises w cat_idx build_idx
                   then (Some AttributeError, st1, res2)
                   else
                     (let st2 = st1\<lparr>metadata := metadata st1 @ [bld']\<rparr>;
                          st3 = save_metadata w st2;
                          st4 = save_checkpoint w cat_idx build_idx n_categories st3
                      in (None, st4, res2))))"

definition process_build ::
  "world \<Rightarrow> bool \<Rightarrow> nat \<Rightarrow> nat \<Rightarrow> nat \<Rightarrow> build \<Rightarrow> scraper \<times> results \<Rightarrow>
   scraper \<times> results" where
  "process_build w loaded n_categories cat_idx build_idx bld sr =
     (case process_build_body w loaded n_categories cat_idx build_idx bld sr of
        (None, st', res') \<Rightarrow> (st', res')
      | (Some e, st', res') \<Rightarrow>
          (save_checkpoint w cat_idx build_idx n_categories st',
           res'\<lparr>failed_builds := failed_builds res' + 1\<rparr>))"

text \<open>\<^verbatim>\<open>for build_idx, build in enumerate(builds)\<close>, from position \<open>build_idx\<close> on.\<close>

fun process_builds ::
  "world \<Rightarrow> bool \<Rightarrow> nat \<Rightarrow> nat \<Rightarrow> nat \<Rightarrow> build list \<Rightarrow> scraper \<times> results \<Rightarrow>
   scraper \<times> results" where
  "process_builds w loaded n_categories cat_idx build_idx [] sr = sr"
| "process_builds w loaded n_categories cat_idx build_idx (bld # builds) sr =
     process_builds w loaded n_categories cat_idx (Suc build_idx) builds
       (process_build w loaded n_categories cat_idx build_idx bld sr)"

text \<open>The builds of one category as the inner loop sees them (lines 497 and 498).\<close>

definition category_builds :: "world \<Rightarrow> int \<Rightarrow> url list \<Rightarrow> nat \<Rightarrow> build list" where
  "category_builds w max_builds_per_category category_urls cat_idx =
     py_slice_to max_builds_per_category
       (extract_builds_from_category w (category_urls ! cat_idx))"

text \<open>One iteration of the outer loop (lines 493 to 536), with its handler.\<close>

definition process_category_body ::
  "world \<Rightarrow> bool \<Rightarrow> int \<Rightarrow> url list \<Rightarrow> nat \<Rightarrow> scraper \<times> results \<Rightarrow>
   exn option \<times> scraper \<times> results" where
  "process_category_body w loaded max_builds_per_category category_urls cat_idx sr =
     (if category_raises w cat_idx then (Some Raised, sr)
      else (None, process_builds w loaded (length category_urls) cat_idx 0
                    (category_builds w max_builds_per_category category_urls cat_idx) sr))"

definition process_category ::
  "world \<Rightarrow> bool \<Rightarrow> int \<Rightarrow> url list \<Rightarrow> nat \<Rightarrow> scraper \<times> results \<Rightarrow>
   scraper \<times> results" where
  "process_category w loaded max_builds_per_category category_urls cat_idx sr =
     (case process_category_body w loaded max_builds_per_category category_urls cat_idx sr of
        (None, sr') \<Rightarrow> sr'
      | (Some e, st', res') \<Rightarrow>
          (save_checkpoint w cat_idx 0 (length category_urls) st', res'))"

text \<open>The lines 452 to 480 of \<^verbatim>\<open>scrape\<close>: the summary, the metadata loaded when the run
  resumes, and the category at which the loop starts.\<close>

definition resuming :: "bool option \<Rightarrow> scraper \<Rightarrow> bool" where
  "resuming resume st =
     ((case resume of None \<Rightarrow> resume_flag st | Some r \<Rightarrow> r) \<and> checkpoint_data st \<noteq> None)"

definition initial_results :: results where
  "initial_results =
     \<lparr>total_builds = 0, successful_builds = 0, failed_builds = 0,
      total_images_downloaded = 0\<rparr>"

definition scrape_start :: "bool option \<Rightarrow> scraper \<Rightarrow> (scraper \<times> results) \<times> nat" where
  "scrape_start resume st =
     (let sr = (if resuming resume st then
                  (case load_metadata (metadata_file st) of
                     Inl e \<Rightarrow> (st, initial_results)
                   | Inr existing_metadata \<Rightarrow>
                       (st\<lparr>metadata := existing_metadata\<rparr>,
                        initial_results\<lparr>total_builds := length existing_metadata\<rparr>))
                else (st, initial_results));
          start_category_idx =
               (if resuming resume st then
                  (case checkpoint_data st of None \<Rightarrow> 0 | Some c \<Rightarrow> current_category_idx c)
                else 0)
      in (sr, start_category_idx))"

text \<open>\<^verbatim>\<open>scrape\<close>.\<close>

definition scrape ::
  "world \<Rightarrow> int \<Rightarrow> int \<Rightarrow> bool option \<Rightarrow> scraper \<Rightarrow> results \<times> scraper" where
  "scrape w max_categories max_builds_per_category resume st =
     (case scrape_start resume st of
        ((st1, res1), start_category_idx) \<Rightarrow>
          let category_urls = get_category_urls w max_categories in
          if category_urls = [] then (res1, st1)
          else
            (case fold (process_category w (resuming resume st) max_builds_per_category
                          category_urls)
                    [start_category_idx ..< length category_urls] (st1, res1) of
               (st2, res2) \<Rightarrow> (res2, clear_checkpoint w st2)))"

section \<open>Notions used in the statements\<close>

text \<open>Projections of the list of actions.\<close>

fun is_fetch :: "event \<Rightarrow> bool" where
  "is_fetch (EvFetchImage u p) = True"
| "is_fetch e = False"

definition only_fetches :: "event list \<Rightarrow> bool" where
  "only_fetches evs = list_all is_fetch evs"

fun ckpt_cursors :: "event list \<Rightarrow> (nat \<times> nat) list" where
  "ckpt_cursors [] = []"
| "ckpt_cursors (EvSaveCheckpoint ck # es) =
     (current_category_idx ck, current_build_idx ck) # ckpt_cursors es"
| "ckpt_cursors (e # es) = ckpt_cursors es"

definition downloads_only :: "scraper \<Rightarrow> scraper \<Rightarrow> bool" where
  "downloads_only st st' \<longleftrightarrow>
     (\<exists>evs. only_fetches evs \<and> trace st' = trace st @ evs)
     \<and> metadata st' = metadata st
     \<and> checkpoint_file st' = checkpoint_file st
     \<and> metadata_file st' = metadata_file st
     \<and> set (image_files st) \<subseteq> set (image_files st')"


text \<open>The position of a checkpoint and the lexicographic order of positions.\<close>

definition cursor :: "checkpoint \<Rightarrow> nat \<times> nat" where
  "cursor ck = (current_category_idx ck, current_build_idx ck)"

definition lex_le :: "nat \<times> nat \<Rightarrow> nat \<times> nat \<Rightarrow> bool" where
  "lex_le p q \<longleftrightarrow> fst p < fst q \<or> (fst p = fst q \<and> snd p \<le> snd q)"

text \<open>The number of records of the latest metadata save in a list of actions, \<open>n\<close> when
  there is none.\<close>

fun last_saved :: "nat \<Rightarrow> event list \<Rightarrow> nat" where
  "last_saved n [] = n"
| "last_saved n (EvSaveMetadata m # es) = last_saved (length m) es"
| "last_saved n (e # es) = last_saved n es"

text \<open>Every checkpoint save of the list counts exactly the records of the latest
  metadata save before it (\<open>n\<close> records when there is none before it).\<close>

fun ckpt_after_meta :: "nat \<Rightarrow> event list \<Rightarrow> bool" where
  "ckpt_after_meta n [] = True"
| "ckpt_after_meta n (EvSaveMetadata m # es) = ckpt_after_meta (length m) es"
| "ckpt_after_meta n (EvSaveCheckpoint ck # es) =
     (total_builds_processed ck = n \<and> ckpt_after_meta n es)"
| "ckpt_after_meta n (e # es) = ckpt_after_meta n es"

text \<open>The actions a run has added to the list.\<close>

definition new_events :: "scraper \<Rightarrow> scraper \<Rightarrow> event list" where
  "new_events st st' = drop (length (trace st)) (trace st')"

text \<open>The positions at which the loops of \<^verbatim>\<open>scrape\<close> call \<^verbatim>\<open>_save_checkpoint\<close> when
  every category from \<open>start\<close> on is visited and every build of a visited category is
  attempted: position \<open>(c, 0)\<close> for a category whose processing raised, and the positions
  of all its builds otherwise.\<close>

definition category_positions :: "world \<Rightarrow> int \<Rightarrow> url list \<Rightarrow> nat \<Rightarrow> (nat \<times> nat) list" where
  "category_positions w max_builds category_urls c =
     (if category_raises w c then [(c, 0)]
      else map (Pair c) [0 ..< length (category_builds w max_builds category_urls c)])"

definition attempted_positions ::
  "world \<Rightarrow> int \<Rightarrow> url list \<Rightarrow> nat \<Rightarrow> (nat \<times> nat) list" where
  "attempted_positions w max_builds category_urls start =
     concat (map (category_positions w max_builds category_urls)
               [start ..< length category_urls])"

text \<open>\<open>extends st st' evs\<close>: the state \<open>st'\<close> has performed the actions \<open>evs\<close> after those of
  \<open>st\<close>; none of them clears the checkpoint, every checkpoint save among them counts the
  records of the metadata save before it, and the last metadata save holds the metadata
  of \<open>st'\<close>.\<close>

definition extends :: "scraper \<Rightarrow> scraper \<Rightarrow> event list \<Rightarrow> bool" where
  "extends st st' evs \<longleftrightarrow>
     trace st' = trace st @ evs
     \<and> count_list evs EvClearCheckpoint = 0
     \<and> ckpt_after_meta (length (metadata st)) evs
     \<and> last_saved (length (metadata st)) evs = length (metadata st')"

section \<open>Concrete environments\<close>

text \<open>An environment in which every image download succeeds, nothing raises and the disk
  accepts every write.\<close>

definition reliable_world ::
  "url list option \<Rightarrow> (url \<Rightarrow> (string \<times> url) option list option) \<Rightarrow>
   (url \<Rightarrow> (url list \<times> string list) option) \<Rightarrow> world" where
  "reliable_world links items details =
     \<lparr>home_links = links, category_items = items, detail_page = details,
      image_ok = (\<lambda>u. True), mkdir_ok = (\<lambda>d. True), item_raises = (\<lambda>c b. False), category_raises = (\<lambda>c. False),
      meta_write = (\<lambda>n. Written), ckpt_write = (\<lambda>c b. Written), unlink_ok = True\<rparr>"

text \<open>The scenario of the specification: the home page lists the categories A and B;
  A lists item i1 with tag t1 and image u1 and item i2 with image u2 and no tag; B lists
  nothing.\<close>

definition scenario_world :: world where
  "scenario_world =
     reliable_world (Some [''A'', ''B''])
       (\<lambda>u. if u = ''A'' then Some [Some (''one'', ''i1''), Some (''two'', ''i2'')]
            else if u = ''B'' then Some [] else None)
       (\<lambda>u. if u = ''i1'' then Some ([''u1''], [''t1''])
            else if u = ''i2'' then Some ([''u2''], []) else None)"

text \<open>A home page on which no category link is found.\<close>

definition no_links_world :: world where
  "no_links_world = reliable_world (Some []) (\<lambda>u. None) (\<lambda>u. None)"

text \<open>A record and a checkpoint left on disk by an earlier run.\<close>

definition old_build :: build where
  "old_build =
     \<lparr>title = ''one'', build_url = ''i1'', tags = [''t1''], category_url = ''A'',
      image_urls = [''u1''], local_image_paths = [''build_00000_one/image_000.jpg''],
      images_count = 1, build_directory = Some ''build_00000_one''\<rparr>"

definition old_checkpoint :: checkpoint where
  "old_checkpoint =
     \<lparr>current_category_idx = 0, current_build_idx = 0, total_categories = 2,
      total_builds_processed = 1\<rparr>"


text \<open>A build with at least one tag and at least one image reference.\<close>

definition has_tags_and_images :: "build \<Rightarrow> bool" where
  "has_tags_and_images r \<longleftrightarrow> tags r \<noteq> [] \<and> image_urls r \<noteq> []"

text \<open>\<open>m\<close> is \<open>m0\<close> followed by builds that all have tags and image references.\<close>

definition appended_valid :: "build list \<Rightarrow> build list \<Rightarrow> bool" where
  "appended_valid m0 m \<longleftrightarrow>
     (\<exists>new. m = m0 @ new \<and> (\<forall>r \<in> set new. has_tags_and_images r))"

text \<open>The number of builds that pass the validation of
  \<^verbatim>\<open>extract_builds_from_category\<close> and the cap, over the categories that do not
  raise.\<close>

definition validated_builds :: "world \<Rightarrow> int \<Rightarrow> url list \<Rightarrow> nat list \<Rightarrow> nat" where
  "validated_builds w max_builds category_urls cs =
     sum_list (map (\<lambda>c. if category_raises w c then 0
                         else length (category_builds w max_builds category_urls c)) cs)"

text \<open>The scenario with every image download failing.\<close>

definition broken_images_world :: world where
  "broken_images_world = scenario_world\<lparr>image_ok := (\<lambda>u. False)\<rparr>"

text \<open>The number of network requests for images in a list of actions.\<close>

definition fetch_count :: "event list \<Rightarrow> nat" where
  "fetch_count evs = length (filter is_fetch evs)"

text \<open>One category with three builds, each with one tag and one image.\<close>

definition three_builds_world :: world where
  "three_builds_world =
     reliable_world (Some [''A''])
       (\<lambda>u. if u = ''A''
            then Some [Some (''one'', ''i1''), Some (''two'', ''i2''), Some (''three'', ''i3'')]
            else None)
       (\<lambda>u. if u = ''i1'' then Some ([''u1''], [''t1''])
            else if u = ''i2'' then Some ([''u2''], [''t2''])
            else if u = ''i3'' then Some ([''u3''], [''t3'']) else None)"

text \<open>The three builds on a disk that refuses every write of the metadata file.\<close>

definition refused_metadata_world :: world where
  "refused_metadata_world = three_builds_world\<lparr>meta_write := (\<lambda>n. Refused)\<rparr>"

text \<open>The state in which \<^verbatim>\<open>scrape\<close> is when the process is killed right after the
  iteration for build \<open>build_idx\<close> of category \<open>cat_idx\<close> has finished: the categories
  before \<open>cat_idx\<close> have been processed, and of category \<open>cat_idx\<close> the builds up to
  \<open>build_idx\<close>.\<close>

definition scrape_killed_after ::
  "world \<Rightarrow> int \<Rightarrow> int \<Rightarrow> bool option \<Rightarrow> nat \<Rightarrow> nat \<Rightarrow> scraper \<Rightarrow> scraper" where
  "scrape_killed_after w max_categories max_builds_per_category resume cat_idx build_idx st =
     (case scrape_start resume st of
        (sr1, start_category_idx) \<Rightarrow>
          let category_urls = get_category_urls w max_categories in
          fst (process_builds w (resuming resume st) (length category_urls) cat_idx 0
                 (take (Suc build_idx)
                    (category_builds w max_builds_per_category category_urls cat_idx))
                 (fold (process_category w (resuming resume st) max_builds_per_category
                          category_urls)
                    [start_category_idx ..< cat_idx] sr1)))"

text \<open>A new \<^verbatim>\<open>Scraper\<close> object on the files that an earlier one left behind.\<close>

definition restart :: "bool \<Rightarrow> scraper \<Rightarrow> scraper" where
  "restart resume st =
     new_scraper resume (checkpoint_file st) (metadata_file st) (image_files st)"

section \<open>Loading fails soft\<close>

text \<open>
  Claim C9. Loading the checkpoint and loading the existing metadata never end in an
  exception: each returns a value for every state of its file. Whenever the body of the
  \<^verbatim>\<open>try\<close> raises, and in particular for a missing or an unreadable file, the
  checkpoint load returns the empty dictionary and the metadata load the empty list.
\<close>

theorem loads_fail_soft:
  "(\<exists>c. load_checkpoint f = Inr c) \<and> (\<exists>m. load_metadata g = Inr m)
   \<and> (\<forall>e. load_checkpoint_body f = Inl e \<longrightarrow> load_checkpoint f = Inr None)
   \<and> (\<forall>e. load_metadata_body g = Inl e \<longrightarrow> load_metadata g = Inr [])
   \<and> (f = Missing \<or> f = Unreadable \<longrightarrow> load_checkpoint f = Inr None)
   \<and> (g = Missing \<or> g = Unreadable \<longrightarrow> load_metadata g = Inr [])"
  by (cases f; cases g)
     (simp_all add: load_checkpoint_def load_checkpoint_body_def
        load_metadata_def load_metadata_body_def)

theorem loads_fail_soft_witness:
  "load_checkpoint_body Unreadable = Inl JSONDecodeError
   \<and> load_checkpoint Unreadable = Inr None
   \<and> load_metadata_body Unreadable = Inl JSONDecodeError
   \<and> load_metadata Unreadable = Inr []
   \<and> load_checkpoint Missing = Inr None \<and> load_metadata Missing = Inr []"
  using loads_fail_soft [of Unreadable Unreadable] loads_fail_soft [of Missing Missing]
  by (simp add: load_checkpoint_body_def load_metadata_body_def)

section \<open>Downloads change nothing but the images and the list of actions\<close>

lemma only_fetches_simps [simp]:
  "only_fetches []"
  "only_fetches (e # es) = (is_fetch e \<and> only_fetches es)"
  "only_fetches (xs @ ys) = (only_fetches xs \<and> only_fetches ys)"
  by (simp_all add: only_fetches_def)


lemma downloads_only_refl: "downloads_only st st"
proof -
  have "only_fetches [] \<and> trace st = trace st @ []" by simp
  then show ?thesis unfolding downloads_only_def by blast
qed

lemma downloads_only_trans:
  assumes "downloads_only a b" "downloads_only b c"
  shows "downloads_only a c"
proof -
  from assms obtain e1 e2 where "only_fetches e1" "trace b = trace a @ e1"
    "only_fetches e2" "trace c = trace b @ e2"
    unfolding downloads_only_def by blast
  then have "only_fetches (e1 @ e2) \<and> trace c = trace a @ (e1 @ e2)" by simp
  then have "\<exists>evs. only_fetches evs \<and> trace c = trace a @ evs" by blast
  with assms show ?thesis unfolding downloads_only_def by auto
qed

lemma download_image_downloads_only:
  "downloads_only st (snd (download_image w u p st))"
proof -
  have "only_fetches [EvFetchImage u p]" by simp
  then show ?thesis
    unfolding downloads_only_def download_image_def Let_def by auto
qed

lemma acquire_image_downloads_only:
  "downloads_only st (snd (acquire_image w u p (paths, st)))"
proof (cases "p \<in> set (image_files st)")
  case True
  then show ?thesis by (simp add: acquire_image_def downloads_only_refl)
next
  case False
  then have "snd (acquire_image w u p (paths, st)) = snd (download_image w u p st)"
    by (simp add: acquire_image_def split: prod.splits)
  then show ?thesis by (simp add: download_image_downloads_only)
qed

lemma download_images_downloads_only:
  "downloads_only (snd acc) (snd (download_images w d i urls acc))"
proof (induction urls arbitrary: i acc)
  case Nil
  show ?case by (simp add: downloads_only_refl)
next
  case (Cons u urls)
  obtain paths st where acc: "acc = (paths, st)" by (cases acc)
  have 1: "downloads_only st (snd (acquire_image w u (image_path d i) (paths, st)))"
    by (rule acquire_image_downloads_only)
  have 2: "downloads_only (snd (acquire_image w u (image_path d i) (paths, st)))
            (snd (download_images w d (Suc i) urls (acquire_image w u (image_path d i) (paths, st))))"
    by (rule Cons.IH)
  show ?case using downloads_only_trans[OF 1 2] by (simp add: acc)
qed

lemma download_all_downloads_only:
  "downloads_only st (snd (download_all_images_for_build w b g st))"
proof (cases "build_url b \<noteq> []
    \<and> mkdir_ok w (build_dir_name g (title b))")
  case False
  then have "snd (download_all_images_for_build w b g st) = st"
    by (auto simp: download_all_images_for_build_def download_all_images_body_def Let_def)
  then show ?thesis by (simp add: downloads_only_refl)
next
  case True
  have "snd (download_all_images_for_build w b g st) =
        snd (download_images w (build_dir_name g (title b)) 0 (image_urls b) ([], st))"
    using True
    by (simp add: download_all_images_for_build_def download_all_images_body_def Let_def
          split: prod.splits)
  moreover have "downloads_only (snd ([]::path list, st))
       (snd (download_images w (build_dir_name g (title b)) 0 (image_urls b) ([], st)))"
    by (rule download_images_downloads_only)
  ultimately show ?thesis by simp
qed

lemma download_all_fields:
  "tags (fst (download_all_images_for_build w b g st)) = tags b"
  "image_urls (fst (download_all_images_for_build w b g st)) = image_urls b"
  "build_url (fst (download_all_images_for_build w b g st)) = build_url b"
  "title (fst (download_all_images_for_build w b g st)) = title b"
  "images_count (fst (download_all_images_for_build w b g st)) =
     length (local_image_paths (fst (download_all_images_for_build w b g st)))"
  by (simp_all add: download_all_images_for_build_def download_all_images_body_def Let_def
        split: prod.splits)

lemma ckpt_cursors_append: "ckpt_cursors (xs @ ys) = ckpt_cursors xs @ ckpt_cursors ys"
  by (induction xs rule: ckpt_cursors.induct) simp_all

lemma ckpt_cursors_fetches: "only_fetches evs \<Longrightarrow> ckpt_cursors evs = []"
  by (induction evs rule: ckpt_cursors.induct) simp_all

lemma last_saved_append: "last_saved n (xs @ ys) = last_saved (last_saved n xs) ys"
  by (induction n xs rule: last_saved.induct) simp_all

lemma last_saved_fetches: "only_fetches evs \<Longrightarrow> last_saved n evs = n"
  by (induction n evs rule: last_saved.induct) simp_all

lemma ckpt_after_meta_append:
  "ckpt_after_meta n (xs @ ys) \<longleftrightarrow> ckpt_after_meta n xs \<and> ckpt_after_meta (last_saved n xs) ys"
  by (induction n xs rule: ckpt_after_meta.induct) auto

lemma ckpt_after_meta_fetches: "only_fetches evs \<Longrightarrow> ckpt_after_meta n evs"
  by (induction n evs rule: ckpt_after_meta.induct) simp_all

lemma count_clear_fetches: "only_fetches evs \<Longrightarrow> count_list evs EvClearCheckpoint = 0"
  by (induction evs) auto

subsection \<open>One build\<close>

text \<open>The summary after the outcome of a build has been counted (lines 504 and 512 to
  516).\<close>

lemma process_build_raises:
  "ld \<and> item_raises w c b \<Longrightarrow>
   download_all_images_for_build w bld (total_builds res) st = (bld', st1) \<Longrightarrow>
   process_build w ld n c b bld (st, res) =
     (save_checkpoint w c b n st1,
      if images_count bld' > 0
      then res\<lparr>total_builds := total_builds res + 1,
               successful_builds := successful_builds res + 1,
               total_images_downloaded := total_images_downloaded res + images_count bld',
               failed_builds := failed_builds res + 1\<rparr>
      else res\<lparr>total_builds := total_builds res + 1, failed_builds := failed_builds res + 2\<rparr>)"
  by (simp add: process_build_def process_build_body_def Let_def)

lemma process_build_ok:
  "\<not> (ld \<and> item_raises w c b) \<Longrightarrow>
   download_all_images_for_build w bld (total_builds res) st = (bld', st1) \<Longrightarrow>
   process_build w ld n c b bld (st, res) =
     (save_checkpoint w c b n (save_metadata w (st1\<lparr>metadata := metadata st1 @ [bld']\<rparr>)),
      if images_count bld' > 0
      then res\<lparr>total_builds := total_builds res + 1,
               successful_builds := successful_builds res + 1,
               total_images_downloaded := total_images_downloaded res + images_count bld'\<rparr>
      else res\<lparr>total_builds := total_builds res + 1, failed_builds := failed_builds res + 1\<rparr>)"
  by (cases ld) (simp_all add: process_build_def process_build_body_def Let_def)

lemma save_checkpoint_fields [simp]:
  "metadata (save_checkpoint w c b n st) = metadata st"
  "metadata_file (save_checkpoint w c b n st) = metadata_file st"
  "image_files (save_checkpoint w c b n st) = image_files st"
  "trace (save_checkpoint w c b n st) =
     trace st @ [EvSaveCheckpoint \<lparr>current_category_idx = c, current_build_idx = b,
                   total_categories = n, total_builds_processed = length (metadata st)\<rparr>]"
  by (simp_all add: save_checkpoint_def Let_def)

lemma save_metadata_fields [simp]:
  "metadata (save_metadata w st) = metadata st"
  "checkpoint_file (save_metadata w st) = checkpoint_file st"
  "image_files (save_metadata w st) = image_files st"
  "trace (save_metadata w st) = trace st @ [EvSaveMetadata (metadata st)]"
  by (simp_all add: save_metadata_def Let_def)

text \<open>What one iteration of the inner loop adds to the list of actions and to the
  metadata.\<close>

lemma process_build_trace:
  "\<exists>evs. only_fetches evs \<and>
     trace (fst (process_build w ld n c b bld (st, res))) =
       trace st @ evs @
         (if ld \<and> item_raises w c b
          then [EvSaveCheckpoint \<lparr>current_category_idx = c, current_build_idx = b,
                  total_categories = n, total_builds_processed = length (metadata st)\<rparr>]
          else [EvSaveMetadata
                  (metadata st @ [fst (download_all_images_for_build w bld (total_builds res) st)]),
                EvSaveCheckpoint \<lparr>current_category_idx = c, current_build_idx = b,
                  total_categories = n, total_builds_processed = Suc (length (metadata st))\<rparr>])"
proof -
  obtain bld' st1 where d: "download_all_images_for_build w bld (total_builds res) st = (bld', st1)"
    by (cases "download_all_images_for_build w bld (total_builds res) st")
  have "downloads_only st st1" using download_all_downloads_only[of st w bld "total_builds res"] d by simp
  then obtain evs where evs: "only_fetches evs" "trace st1 = trace st @ evs"
    and m: "metadata st1 = metadata st"
    unfolding downloads_only_def by blast
  show ?thesis
  proof (cases "ld \<and> item_raises w c b")
    case True
    have "trace (fst (process_build w ld n c b bld (st, res))) =
        trace st @ evs @ [EvSaveCheckpoint \<lparr>current_category_idx = c, current_build_idx = b,
                    total_categories = n, total_builds_processed = length (metadata st)\<rparr>]"
      using True d evs m by (simp add: process_build_raises)
    with evs(1) True show ?thesis by (intro exI[of _ evs]) simp
  next
    case False
    have "trace (fst (process_build w ld n c b bld (st, res))) =
        trace st @ evs @ [EvSaveMetadata (metadata st @ [bld']),
                  EvSaveCheckpoint \<lparr>current_category_idx = c, current_build_idx = b,
                    total_categories = n, total_builds_processed = Suc (length (metadata st))\<rparr>]"
      using False d evs m by (simp add: process_build_ok)
    with evs(1) False d show ?thesis by (intro exI[of _ evs]) simp
  qed
qed

lemma process_build_metadata:
  "metadata (fst (process_build w ld n c b bld (st, res))) =
     metadata st @ (if ld \<and> item_raises w c b then []
                    else [fst (download_all_images_for_build w bld (total_builds res) st)])"
proof -
  obtain bld' st1 where d: "download_all_images_for_build w bld (total_builds res) st = (bld', st1)"
    by (cases "download_all_images_for_build w bld (total_builds res) st")
  have "downloads_only st st1" using download_all_downloads_only[of st w bld "total_builds res"] d by simp
  then have "metadata st1 = metadata st" unfolding downloads_only_def by blast
  with d show ?thesis
    by (cases "ld \<and> item_raises w c b") (simp_all add: process_build_raises process_build_ok)
qed

lemma process_build_total:
  "total_builds (snd (process_build w ld n c b bld (st, res))) = Suc (total_builds res)"
  by (cases "ld \<and> item_raises w c b"; cases "download_all_images_for_build w bld (total_builds res) st")
     (simp_all add: process_build_raises process_build_ok)

text \<open>A build that does not raise is counted once, as successful or as failed; a build
  that raises is counted once by the body and once more, as failed, by the handler.\<close>

lemma process_build_outcome:
  "successful_builds (snd (process_build w ld n c b bld (st, res)))
     + failed_builds (snd (process_build w ld n c b bld (st, res)))
   = Suc (successful_builds res + failed_builds res)
     + (if ld \<and> item_raises w c b then 1 else 0)"
  by (cases "ld \<and> item_raises w c b"; cases "download_all_images_for_build w bld (total_builds res) st")
     (simp_all add: process_build_raises process_build_ok)

subsection \<open>The loops\<close>

lemma upt_shift: "[b ..< b + Suc k] = b # [Suc b ..< Suc b + k]"
  by (subst upt_rec) simp

lemma extends_refl: "extends st st []"
  by (simp add: extends_def)

lemma extends_trans:
  assumes "extends a b e1" "extends b c e2"
  shows "extends a c (e1 @ e2)"
  using assms
  by (simp add: extends_def ckpt_after_meta_append last_saved_append)

lemma process_build_extends:
  "\<exists>evs. extends st (fst (process_build w ld n c b bld (st, res))) evs
         \<and> ckpt_cursors evs = [(c, b)]"
proof -
  let ?st' = "fst (process_build w ld n c b bld (st, res))"
  let ?ck = "\<lambda>k. EvSaveCheckpoint \<lparr>current_category_idx = c, current_build_idx = b,
                  total_categories = n, total_builds_processed = k\<rparr>"
  let ?tail = "if ld \<and> item_raises w c b then [?ck (length (metadata st))]
     else [EvSaveMetadata (metadata st @
              [fst (download_all_images_for_build w bld (total_builds res) st)]),
           ?ck (Suc (length (metadata st)))]"
  from process_build_trace[of w ld n c b bld st res]
  obtain evs where f: "only_fetches evs" and t: "trace ?st' = trace st @ evs @ ?tail"
    by blast
  have m: "length (metadata ?st') = (if ld \<and> item_raises w c b then length (metadata st)
                                    else Suc (length (metadata st)))"
    by (simp add: process_build_metadata)
  have 1: "count_list (evs @ ?tail) EvClearCheckpoint = 0"
    using f by (simp add: count_clear_fetches)
  have 2: "ckpt_after_meta (length (metadata st)) (evs @ ?tail)"
    using f by (simp add: ckpt_after_meta_append ckpt_after_meta_fetches last_saved_fetches)
  have 3: "last_saved (length (metadata st)) (evs @ ?tail) = length (metadata ?st')"
    using f m by (simp add: last_saved_append last_saved_fetches)
  have 4: "ckpt_cursors (evs @ ?tail) = [(c, b)]"
    using f by (simp add: ckpt_cursors_append ckpt_cursors_fetches)
  have "extends st ?st' (evs @ ?tail)"
    unfolding extends_def using t 1 2 3 by simp
  with 4 show ?thesis by blast
qed

lemma process_builds_extends:
  "\<exists>evs. extends (fst sr) (fst (process_builds w ld n c b builds sr)) evs
         \<and> ckpt_cursors evs = map (Pair c) [b ..< b + length builds]"
proof (induction builds arbitrary: b sr)
  case Nil
  have "extends (fst sr) (fst sr) [] \<and> ckpt_cursors [] = map (Pair c) [b ..< b + 0]"
    by (simp add: extends_refl)
  then show ?case by auto
next
  case (Cons bld builds)
  obtain st res where sr: "sr = (st, res)" by (cases sr)
  let ?sr1 = "process_build w ld n c b bld (st, res)"
  from process_build_extends[of st w ld n c b bld res]
  obtain e1 where e1: "extends st (fst ?sr1) e1" "ckpt_cursors e1 = [(c, b)]" by blast
  from Cons.IH[where b="Suc b" and sr="?sr1"]
  obtain e2 where e2: "extends (fst ?sr1) (fst (process_builds w ld n c (Suc b) builds ?sr1)) e2"
    "ckpt_cursors e2 = map (Pair c) [Suc b ..< Suc b + length builds]" by blast
  have "extends st (fst (process_builds w ld n c b (bld # builds) (st, res))) (e1 @ e2)"
    using extends_trans[OF e1(1) e2(1)] by simp
  moreover have "ckpt_cursors (e1 @ e2) = map (Pair c) [b ..< b + length (bld # builds)]"
    using e1(2) e2(2) upt_shift[of b "length builds"]
    by (simp add: ckpt_cursors_append del: upt_Suc)
  ultimately show ?case unfolding sr by (intro exI[of _ "e1 @ e2"]) simp
qed

lemma process_builds_invariant:
  assumes "\<And>b bld sr. bld \<in> set builds \<Longrightarrow> P sr \<Longrightarrow> P (process_build w ld n c b bld sr)"
    and "P sr"
  shows "P (process_builds w ld n c b0 builds sr)"
  using assms
proof (induction builds arbitrary: b0 sr)
  case Nil
  then show ?case by simp
next
  case (Cons bld builds)
  have "P (process_build w ld n c b0 bld sr)" using Cons.prems by simp
  moreover have "\<And>b x sr. x \<in> set builds \<Longrightarrow> P sr \<Longrightarrow> P (process_build w ld n c b x sr)"
    using Cons.prems(1) by simp
  ultimately show ?case using Cons.IH by simp
qed

lemma process_builds_total:
  "total_builds (snd (process_builds w ld n c b builds sr)) = total_builds (snd sr) + length builds"
proof (induction builds arbitrary: b sr)
  case Nil
  show ?case by simp
next
  case (Cons bld builds)
  obtain st res where sr: "sr = (st, res)" by (cases sr)
  show ?case using Cons.IH[where b="Suc b" and sr="process_build w ld n c b bld (st, res)"]
    by (simp add: sr process_build_total)
qed

lemma process_category_raises:
  "category_raises w c \<Longrightarrow>
   process_category w ld mb cats c (st, res) = (save_checkpoint w c 0 (length cats) st, res)"
  by (simp add: process_category_def process_category_body_def)

lemma process_category_ok:
  "\<not> category_raises w c \<Longrightarrow>
   process_category w ld mb cats c sr =
     process_builds w ld (length cats) c 0 (category_builds w mb cats c) sr"
  by (simp add: process_category_def process_category_body_def)

lemma save_checkpoint_extends:
  "extends st (save_checkpoint w c b n st)
     [EvSaveCheckpoint \<lparr>current_category_idx = c, current_build_idx = b,
        total_categories = n, total_builds_processed = length (metadata st)\<rparr>]"
  by (simp add: extends_def)

lemma process_category_extends:
  "\<exists>evs. extends (fst sr) (fst (process_category w ld mb cats c sr)) evs
         \<and> ckpt_cursors evs = category_positions w mb cats c"
proof (cases "category_raises w c")
  case True
  obtain st res where sr: "sr = (st, res)" by (cases sr)
  show ?thesis
    using True save_checkpoint_extends[of st w c 0 "length cats"]
    unfolding sr
    by (intro exI[of _ "[EvSaveCheckpoint \<lparr>current_category_idx = c, current_build_idx = 0,
        total_categories = length cats, total_builds_processed = length (metadata st)\<rparr>]"])
       (simp add: process_category_raises category_positions_def)
next
  case False
  then show ?thesis
    using process_builds_extends[of sr w ld "length cats" c 0 "category_builds w mb cats c"]
    by (simp add: process_category_ok category_positions_def)
qed

lemma process_category_total:
  "total_builds (snd (process_category w ld mb cats c sr)) =
     total_builds (snd sr) + (if category_raises w c then 0 else length (category_builds w mb cats c))"
proof (cases "category_raises w c")
  case True
  then show ?thesis by (cases sr) (simp add: process_category_raises)
next
  case False
  then show ?thesis by (simp add: process_category_ok process_builds_total)
qed

lemma categories_extends:
  "\<exists>evs. extends (fst sr) (fst (fold (process_category w ld mb cats) cs sr)) evs
         \<and> ckpt_cursors evs = concat (map (category_positions w mb cats) cs)"
proof (induction cs arbitrary: sr)
  case Nil
  have "extends (fst sr) (fst sr) [] \<and> ckpt_cursors [] = concat (map (category_positions w mb cats) [])"
    by (simp add: extends_refl)
  then show ?case by auto
next
  case (Cons c cs)
  let ?sr1 = "process_category w ld mb cats c sr"
  from process_category_extends[of sr w ld mb cats c]
  obtain e1 where e1: "extends (fst sr) (fst ?sr1) e1"
    "ckpt_cursors e1 = category_positions w mb cats c" by blast
  from Cons.IH[of ?sr1]
  obtain e2 where e2: "extends (fst ?sr1) (fst (fold (process_category w ld mb cats) cs ?sr1)) e2"
    "ckpt_cursors e2 = concat (map (category_positions w mb cats) cs)" by blast
  have "extends (fst sr) (fst (fold (process_category w ld mb cats) (c # cs) sr)) (e1 @ e2)"
    using extends_trans[OF e1(1) e2(1)] by simp
  moreover have "ckpt_cursors (e1 @ e2) = concat (map (category_positions w mb cats) (c # cs))"
    using e1(2) e2(2) by (simp add: ckpt_cursors_append)
  ultimately show ?case by blast
qed

lemma categories_invariant:
  assumes "\<And>c sr. c \<in> set cs \<Longrightarrow> P sr \<Longrightarrow> P (process_category w ld mb cats c sr)"
    and "P sr"
  shows "P (fold (process_category w ld mb cats) cs sr)"
  using assms
proof (induction cs arbitrary: sr)
  case Nil
  then show ?case by simp
next
  case (Cons c cs)
  have "P (process_category w ld mb cats c sr)" using Cons.prems by simp
  moreover have "\<And>x sr. x \<in> set cs \<Longrightarrow> P sr \<Longrightarrow> P (process_category w ld mb cats x sr)"
    using Cons.prems(1) by simp
  ultimately show ?case using Cons.IH by simp
qed

lemma categories_total:
  "total_builds (snd (fold (process_category w ld mb cats) cs sr)) =
     total_builds (snd sr)
     + sum_list (map (\<lambda>c. if category_raises w c then 0
                           else length (category_builds w mb cats c)) cs)"
proof (induction cs arbitrary: sr)
  case Nil
  show ?case by simp
next
  case (Cons c cs)
  show ?case using Cons.IH[of "process_category w ld mb cats c sr"]
    by (simp add: process_category_total)
qed

subsection \<open>The whole run\<close>

lemma scrape_start_fields [simp]:
  "trace (fst (fst (scrape_start r st))) = trace st"
  "checkpoint_file (fst (fst (scrape_start r st))) = checkpoint_file st"
  "metadata_file (fst (fst (scrape_start r st))) = metadata_file st"
  "image_files (fst (fst (scrape_start r st))) = image_files st"
  by (simp_all add: scrape_start_def Let_def split: sum.splits)

lemma scrape_start_fresh:
  "\<not> resuming r st \<Longrightarrow> scrape_start r st = ((st, initial_results), 0)"
  by (simp add: scrape_start_def)

lemma load_metadata_Inr: "\<exists>m. load_metadata f = Inr m"
  by (cases f) (simp_all add: load_metadata_def load_metadata_body_def)

lemma scrape_start_results:
  "successful_builds (snd (fst (scrape_start r st))) = 0"
  "failed_builds (snd (fst (scrape_start r st))) = 0"
  "total_images_downloaded (snd (fst (scrape_start r st))) = 0"
  "total_builds (snd (fst (scrape_start r st))) =
     (if resuming r st then length (metadata (fst (fst (scrape_start r st)))) else 0)"
  using load_metadata_Inr[of "metadata_file st"]
  by (auto simp: scrape_start_def Let_def initial_results_def split: sum.splits)

lemma scrape_empty:
  "get_category_urls w mc = [] \<Longrightarrow>
   scrape w mc mb r st = (snd (fst (scrape_start r st)), fst (fst (scrape_start r st)))"
  by (simp add: scrape_def Let_def split: prod.splits)

lemma scrape_nonempty:
  "get_category_urls w mc \<noteq> [] \<Longrightarrow>
   scrape w mc mb r st =
     (snd (fold (process_category w (resuming r st) mb (get_category_urls w mc))
             [snd (scrape_start r st) ..< length (get_category_urls w mc)]
             (fst (scrape_start r st))),
      clear_checkpoint w
        (fst (fold (process_category w (resuming r st) mb (get_category_urls w mc))
                [snd (scrape_start r st) ..< length (get_category_urls w mc)]
                (fst (scrape_start r st)))))"
  by (simp add: scrape_def Let_def split: prod.splits)

lemma new_events_append: "trace st' = trace st @ evs \<Longrightarrow> new_events st st' = evs"
  by (simp add: new_events_def)

text \<open>The actions of a run that found a category: those of the loops, which save a
  checkpoint at every attempted position, followed by the clearing of the checkpoint.\<close>

lemma scrape_events:
  assumes "get_category_urls w mc \<noteq> []"
  shows "\<exists>evs. new_events st (snd (scrape w mc mb r st)) = evs @ [EvClearCheckpoint]
           \<and> count_list evs EvClearCheckpoint = 0
           \<and> ckpt_after_meta (length (metadata (fst (fst (scrape_start r st))))) evs
           \<and> ckpt_cursors evs =
               attempted_positions w mb (get_category_urls w mc) (snd (scrape_start r st))"
proof -
  let ?cats = "get_category_urls w mc"
  let ?sr1 = "fst (scrape_start r st)"
  let ?sr2 = "fold (process_category w (resuming r st) mb ?cats) [snd (scrape_start r st) ..< length ?cats] ?sr1"
  from categories_extends[of ?sr1 w "resuming r st" mb ?cats "[snd (scrape_start r st) ..< length ?cats]"]
  obtain evs where e: "extends (fst ?sr1) (fst ?sr2) evs"
    and c: "ckpt_cursors evs = attempted_positions w mb ?cats (snd (scrape_start r st))"
    unfolding attempted_positions_def by blast
  have "trace (snd (scrape w mc mb r st)) = trace st @ evs @ [EvClearCheckpoint]"
    using e assms by (simp add: scrape_nonempty clear_checkpoint_def extends_def)
  then have "new_events st (snd (scrape w mc mb r st)) = evs @ [EvClearCheckpoint]"
    by (rule new_events_append)
  with e c show ?thesis unfolding extends_def by blast
qed

lemma scrape_no_events:
  "get_category_urls w mc = [] \<Longrightarrow> new_events st (snd (scrape w mc mb r st)) = []"
  by (simp add: scrape_empty new_events_def)


subsection \<open>The counters\<close>

text \<open>While \<^verbatim>\<open>self.metadata\<close> is the list of the object, no build raises, and every
  counted build is counted once, as successful or as failed.\<close>

lemma process_builds_outcome:
  "successful_builds (snd (process_builds w False n c b builds sr))
     + failed_builds (snd (process_builds w False n c b builds sr))
   = successful_builds (snd sr) + failed_builds (snd sr) + length builds"
proof (induction builds arbitrary: b sr)
  case Nil
  show ?case by simp
next
  case (Cons bld builds)
  obtain st res where sr: "sr = (st, res)" by (cases sr)
  show ?case
    using Cons.IH[where b="Suc b" and sr="process_build w False n c b bld (st, res)"]
          process_build_outcome[of w False n c b bld st res]
    by (simp add: sr)
qed

lemma process_category_outcome:
  "successful_builds (snd (process_category w False mb cats c sr))
     + failed_builds (snd (process_category w False mb cats c sr))
   = successful_builds (snd sr) + failed_builds (snd sr)
     + (if category_raises w c then 0 else length (category_builds w mb cats c))"
proof (cases "category_raises w c")
  case True
  then show ?thesis by (cases sr) (simp add: process_category_raises)
next
  case False
  then show ?thesis by (simp add: process_category_ok process_builds_outcome)
qed

lemma categories_outcome:
  "successful_builds (snd (fold (process_category w False mb cats) cs sr))
     + failed_builds (snd (fold (process_category w False mb cats) cs sr))
   = successful_builds (snd sr) + failed_builds (snd sr)
     + sum_list (map (\<lambda>c. if category_raises w c then 0
                           else length (category_builds w mb cats c)) cs)"
proof (induction cs arbitrary: sr)
  case Nil
  show ?case by simp
next
  case (Cons c cs)
  show ?case
    using Cons.IH[of "process_category w False mb cats c sr"]
          process_category_outcome[of w mb cats c sr]
    by simp
qed

text \<open>In a run that does not resume every counted build is counted as successful or as
  failed, and the count starts at zero.\<close>

lemma scrape_counters:
  assumes "\<not> resuming r st"
  shows "successful_builds (fst (scrape w mc mb r st)) + failed_builds (fst (scrape w mc mb r st))
     + total_builds (snd (fst (scrape_start r st)))
   = total_builds (fst (scrape w mc mb r st))"
proof (cases "get_category_urls w mc = []")
  case True
  then show ?thesis by (simp add: scrape_empty scrape_start_results)
next
  case False
  then show ?thesis
    using assms
    by (simp add: scrape_nonempty categories_outcome categories_total scrape_start_results(1,2))
qed

section \<open>The counters of a fresh run\<close>

text \<open>
  Claim C10. In a run that does not resume from a checkpoint, so that the total count
  starts at zero, the returned summary satisfies
  \<open>successful_builds + failed_builds = total_builds\<close>.
\<close>

theorem fresh_run_outcomes_add_up:
  "\<not> resuming r st \<Longrightarrow>
   successful_builds (fst (scrape w mc mb r st)) + failed_builds (fst (scrape w mc mb r st))
   = total_builds (fst (scrape w mc mb r st))"
  using scrape_counters[of r st w mc mb] by (simp add: scrape_start_fresh initial_results_def)

theorem fresh_run_outcomes_add_up_witness:
  "\<not> resuming None (new_scraper True Missing Missing [])
   \<and> successful_builds (fst (scrape scenario_world 100 100 None (new_scraper True Missing Missing [])))
     + failed_builds (fst (scrape scenario_world 100 100 None (new_scraper True Missing Missing [])))
     = total_builds (fst (scrape scenario_world 100 100 None (new_scraper True Missing Missing [])))"
proof -
  have h: "\<not> resuming None (new_scraper True Missing Missing [])"
    by (simp add: resuming_def new_scraper_def load_checkpoint_def load_checkpoint_body_def)
  show ?thesis
    using h fresh_run_outcomes_add_up[OF h, of scenario_world 100 100] by simp
qed

section \<open>The clearing of the checkpoint\<close>

lemma clear_checkpoint_file:
  "unlink_ok w \<Longrightarrow> checkpoint_file (clear_checkpoint w st) = Missing"
  by (cases "checkpoint_file st") (simp_all add: clear_checkpoint_def)

text \<open>
  Claim C4, as the code has it. A run that finds no category returns at once: it performs
  no action and leaves the checkpoint file as it was. A run that finds at least one
  category calls \<^verbatim>\<open>_clear_checkpoint\<close> exactly once, as its last action, after the
  checkpoint saves of all positions of all categories from the start index on; when the
  unlink succeeds the checkpoint file is absent at the end.
\<close>

theorem checkpoint_cleared_after_all_categories:
  "(get_category_urls w mc = [] \<longrightarrow>
      new_events st (snd (scrape w mc mb r st)) = []
      \<and> checkpoint_file (snd (scrape w mc mb r st)) = checkpoint_file st)
   \<and> (get_category_urls w mc \<noteq> [] \<longrightarrow>
      count_list (new_events st (snd (scrape w mc mb r st))) EvClearCheckpoint = 1
      \<and> (\<exists>evs. new_events st (snd (scrape w mc mb r st)) = evs @ [EvClearCheckpoint]
             \<and> ckpt_cursors evs =
                 attempted_positions w mb (get_category_urls w mc) (snd (scrape_start r st)))
      \<and> (unlink_ok w \<longrightarrow> checkpoint_file (snd (scrape w mc mb r st)) = Missing))"
proof (cases "get_category_urls w mc = []")
  case True
  then show ?thesis by (simp add: scrape_no_events) (simp add: scrape_empty)
next
  case False
  from scrape_events[OF False, of st mb r]
  obtain evs where e: "new_events st (snd (scrape w mc mb r st)) = evs @ [EvClearCheckpoint]"
    "count_list evs EvClearCheckpoint = 0"
    "ckpt_cursors evs = attempted_positions w mb (get_category_urls w mc) (snd (scrape_start r st))"
    by blast
  have 1: "count_list (new_events st (snd (scrape w mc mb r st))) EvClearCheckpoint = 1"
    using e(1,2) by simp
  have 2: "unlink_ok w \<longrightarrow> checkpoint_file (snd (scrape w mc mb r st)) = Missing"
    using False by (simp add: scrape_nonempty clear_checkpoint_file)
  show ?thesis using False 1 2 e(1,3) by blast
qed

theorem checkpoint_cleared_after_all_categories_witness:
  "get_category_urls no_links_world 100 = []
   \<and> new_events (new_scraper True (Holds old_checkpoint) (Holds [old_build]) [])
        (snd (scrape no_links_world 100 100 None
                (new_scraper True (Holds old_checkpoint) (Holds [old_build]) []))) = []
   \<and> get_category_urls scenario_world 100 \<noteq> []
   \<and> unlink_ok scenario_world
   \<and> count_list (new_events (new_scraper True Missing Missing [])
        (snd (scrape scenario_world 100 100 None (new_scraper True Missing Missing []))))
        EvClearCheckpoint = 1
   \<and> checkpoint_file
        (snd (scrape scenario_world 100 100 None (new_scraper True Missing Missing []))) = Missing"
proof -
  have h1: "get_category_urls no_links_world 100 = []"
    by (simp add: get_category_urls_def get_category_urls_body_def no_links_world_def
          reliable_world_def)
  have h2: "get_category_urls scenario_world 100 \<noteq> []"
    by (simp add: get_category_urls_def get_category_urls_body_def scenario_world_def
          reliable_world_def py_slice_to_def)
  have h3: "unlink_ok scenario_world"
    by (simp add: scenario_world_def reliable_world_def)
  show ?thesis
    using h1 h2 h3
      checkpoint_cleared_after_all_categories
        [of no_links_world 100 "new_scraper True (Holds old_checkpoint) (Holds [old_build]) []"
            100 None]
      checkpoint_cleared_after_all_categories
        [of scenario_world 100 "new_scraper True Missing Missing []" 100 None]
    by simp
qed

text \<open>The claim as stated fails: a run that finds no category never clears the
  checkpoint, and the checkpoint of the interrupted earlier run is still on disk when it
  ends.\<close>

theorem no_categories_checkpoint_not_cleared:
  "count_list
     (trace (snd (scrape no_links_world 100 100 None
                    (new_scraper True (Holds old_checkpoint) (Holds [old_build]) []))))
     EvClearCheckpoint = 0
   \<and> checkpoint_file (snd (scrape no_links_world 100 100 None
                    (new_scraper True (Holds old_checkpoint) (Holds [old_build]) [])))
     = Holds old_checkpoint"
  by code_simp

section \<open>A run without categories\<close>




section \<open>The checkpoint cursor\<close>

lemma category_positions_fst: "p \<in> set (category_positions w mb cats c) \<Longrightarrow> fst p = c"
  by (auto simp: category_positions_def split: if_splits)

lemma sorted_category_positions: "sorted_wrt lex_le (category_positions w mb cats c)"
proof -
  have "sorted_wrt (\<lambda>a b. lex_le (c, a) (c, b)) [0 ..< k]" for k
    by (rule sorted_wrt_mono_rel[OF _ sorted_wrt_upt]) (simp add: lex_le_def)
  then show ?thesis
    by (simp add: category_positions_def sorted_wrt_map lex_le_def)
qed

lemma sorted_positions:
  "sorted_wrt (<) cs \<Longrightarrow> sorted_wrt lex_le (concat (map (category_positions w mb cats) cs))"
proof (induction cs)
  case Nil
  show ?case by simp
next
  case (Cons c cs)
  have "lex_le p q"
    if "p \<in> set (category_positions w mb cats c)"
      and "q \<in> set (concat (map (category_positions w mb cats) cs))" for p q
  proof -
    from that(2) obtain c' where c': "c' \<in> set cs" "q \<in> set (category_positions w mb cats c')"
      by auto
    have "fst p = c" using that(1) by (rule category_positions_fst)
    moreover have "fst q = c'" using c'(2) by (rule category_positions_fst)
    moreover have "c < c'" using Cons.prems c'(1) by simp
    ultimately show ?thesis by (simp add: lex_le_def)
  qed
  then show ?case
    using Cons by (simp add: sorted_wrt_append sorted_category_positions)
qed

lemma sorted_attempted_positions: "sorted_wrt lex_le (attempted_positions w mb cats start)"
  unfolding attempted_positions_def by (rule sorted_positions) (rule sorted_wrt_upt)

lemma process_build_last_cursor:
  "last (ckpt_cursors (trace (fst (process_build w ld n c b bld sr)))) = (c, b)"
proof -
  obtain st res where sr: "sr = (st, res)" by (cases sr)
  from process_build_extends[of st w ld n c b bld res]
  obtain evs where "trace (fst (process_build w ld n c b bld (st, res))) = trace st @ evs"
    "ckpt_cursors evs = [(c, b)]"
    unfolding extends_def by blast
  then show ?thesis by (simp add: sr ckpt_cursors_append)
qed

lemma process_build_checkpoint_file:
  assumes "ckpt_write w c b = Written"
  shows "\<exists>ck. checkpoint_file (fst (process_build w ld n c b bld sr)) = Holds ck
           \<and> cursor ck = (c, b)
           \<and> total_builds_processed ck = length (metadata (fst (process_build w ld n c b bld sr)))"
proof -
  obtain st res where sr: "sr = (st, res)" by (cases sr)
  obtain bld' st1 where d: "download_all_images_for_build w bld (total_builds res) st = (bld', st1)"
    by (cases "download_all_images_for_build w bld (total_builds res) st")
  show ?thesis
    using assms d
    by (cases "ld \<and> item_raises w c b")
       (simp_all add: sr process_build_raises process_build_ok save_checkpoint_def
          save_metadata_def Let_def cursor_def)
qed

lemma process_build_metadata_file:
  assumes "\<not> (ld \<and> item_raises w c b)" "meta_write w (Suc (length (metadata (fst sr)))) = Written"
  shows "metadata_file (fst (process_build w ld n c b bld sr))
         = Holds (metadata (fst (process_build w ld n c b bld sr)))"
proof -
  obtain st res where sr: "sr = (st, res)" by (cases sr)
  obtain bld' st1 where d: "download_all_images_for_build w bld (total_builds res) st = (bld', st1)"
    by (cases "download_all_images_for_build w bld (total_builds res) st")
  have "downloads_only st st1"
    using download_all_downloads_only[of st w bld "total_builds res"] d by simp
  then have "metadata st1 = metadata st" unfolding downloads_only_def by blast
  then show ?thesis
    using assms d by (simp add: sr process_build_ok save_metadata_def Let_def)
qed

lemma scrape_cursors:
  "ckpt_cursors (new_events st (snd (scrape w mc mb r st))) =
     (if get_category_urls w mc = [] then []
      else attempted_positions w mb (get_category_urls w mc) (snd (scrape_start r st)))"
proof (cases "get_category_urls w mc = []")
  case True
  then show ?thesis by (simp add: scrape_no_events)
next
  case False
  from scrape_events[OF False, of st mb r] show ?thesis
    using False by (auto simp: ckpt_cursors_append)
qed

lemma scrape_ckpt_after_meta:
  "ckpt_after_meta (length (metadata (fst (fst (scrape_start r st)))))
     (new_events st (snd (scrape w mc mb r st)))"
proof (cases "get_category_urls w mc = []")
  case True
  then show ?thesis by (simp add: scrape_no_events)
next
  case False
  from scrape_events[OF False, of st mb r] show ?thesis
    by (auto simp: ckpt_after_meta_append)
qed

text \<open>
  Claim C5, as the code has it. Within one run of \<^verbatim>\<open>scrape\<close>: after the attempt of the
  build at position \<open>(c, b)\<close>, whether it succeeded or raised, the latest checkpoint save is
  the one for \<open>(c, b)\<close>, and when the checkpoint write succeeds the checkpoint file holds
  that position and the number of records in memory; when the build did not raise and the
  metadata write succeeds, the metadata file holds all these records. The positions of
  the checkpoint saves of the run are exactly the attempted positions in their order,
  they never go back in the lexicographic order, and every checkpoint save counts exactly
  the records of the metadata save issued before it. A metadata write that fails is
  logged and the checkpoint is saved all the same. What a resumed run does to the cursor
  that the interrupted run left on disk is not part of the statement.
\<close>

theorem checkpoint_follows_attempts:
  "last (ckpt_cursors (trace (fst (process_build w ld n c b bld sr)))) = (c, b)
   \<and> (ckpt_write w c b = Written \<longrightarrow>
        (\<exists>ck. checkpoint_file (fst (process_build w ld n c b bld sr)) = Holds ck
           \<and> cursor ck = (c, b)
           \<and> total_builds_processed ck
               = length (metadata (fst (process_build w ld n c b bld sr)))))
   \<and> (\<not> (ld \<and> item_raises w c b)
         \<and> meta_write w (Suc (length (metadata (fst sr)))) = Written \<longrightarrow>
        metadata_file (fst (process_build w ld n c b bld sr))
        = Holds (metadata (fst (process_build w ld n c b bld sr))))
   \<and> ckpt_cursors (new_events st (snd (scrape w mc mb r st))) =
       (if get_category_urls w mc = [] then []
        else attempted_positions w mb (get_category_urls w mc) (snd (scrape_start r st)))
   \<and> sorted_wrt lex_le (ckpt_cursors (new_events st (snd (scrape w mc mb r st))))
   \<and> ckpt_after_meta (length (metadata (fst (fst (scrape_start r st)))))
       (new_events st (snd (scrape w mc mb r st)))"
proof -
  have "sorted_wrt lex_le (ckpt_cursors (new_events st (snd (scrape w mc mb r st))))"
    by (simp add: scrape_cursors sorted_attempted_positions)
  then show ?thesis
    using process_build_last_cursor[of w ld n c b bld sr]
      process_build_checkpoint_file[of w c b ld n bld sr]
      process_build_metadata_file[of ld w c b sr n bld]
      scrape_cursors[of st w mc mb r] scrape_ckpt_after_meta[of r st w mc mb]
    by blast
qed

theorem checkpoint_follows_attempts_witness:
  "ckpt_write three_builds_world 0 1 = Written
   \<and> \<not> (False \<and> item_raises three_builds_world 0 1)
   \<and> meta_write three_builds_world
        (Suc (length (metadata (fst (new_scraper True Missing Missing [], initial_results)))))
       = Written
   \<and> last (ckpt_cursors (trace (fst (process_build three_builds_world False 1 0 1 old_build
              (new_scraper True Missing Missing [], initial_results))))) = (0, 1)
   \<and> (\<exists>ck. checkpoint_file (fst (process_build three_builds_world False 1 0 1 old_build
              (new_scraper True Missing Missing [], initial_results))) = Holds ck
          \<and> cursor ck = (0, 1))
   \<and> metadata_file (fst (process_build three_builds_world False 1 0 1 old_build
              (new_scraper True Missing Missing [], initial_results)))
       = Holds (metadata (fst (process_build three_builds_world False 1 0 1 old_build
              (new_scraper True Missing Missing [], initial_results))))
   \<and> ckpt_cursors (new_events (new_scraper True Missing Missing [])
        (snd (scrape three_builds_world 100 100 None (new_scraper True Missing Missing []))))
       = [(0, 0), (0, 1), (0, 2)]
   \<and> sorted_wrt lex_le (ckpt_cursors (new_events (new_scraper True Missing Missing [])
        (snd (scrape three_builds_world 100 100 None (new_scraper True Missing Missing [])))))"
proof -
  have h1: "ckpt_write three_builds_world 0 1 = Written"
    by (simp add: three_builds_world_def reliable_world_def)
  have h2: "\<not> (False \<and> item_raises three_builds_world 0 1)"
    by simp
  have h3: "meta_write three_builds_world
        (Suc (length (metadata (fst (new_scraper True Missing Missing [], initial_results)))))
       = Written"
    by (simp add: three_builds_world_def reliable_world_def)
  have h4: "ckpt_cursors (new_events (new_scraper True Missing Missing [])
        (snd (scrape three_builds_world 100 100 None (new_scraper True Missing Missing []))))
       = [(0, 0), (0, 1), (0, 2)]"
    by code_simp
  show ?thesis
    using h1 h2 h3 h4
      checkpoint_follows_attempts
        [where w=three_builds_world and ld=False and n=1 and c=0 and b=1 and bld=old_build
           and sr="(new_scraper True Missing Missing [], initial_results)"
           and st="new_scraper True Missing Missing []" and mc=100 and mb=100 and r=None]
    by blast
qed

text \<open>The claim as stated fails in two ways. When the disk refuses the write of the
  metadata file, the checkpoint is written all the same: it counts two records while no
  metadata file exists. And a run that resumes saves the position of the first build of
  the interrupted category again, behind the position \<open>(0, 1)\<close> that the interrupted run
  had left on disk.\<close>

theorem checkpoint_ahead_of_metadata_and_behind_on_resume:
  "checkpoint_file
     (scrape_killed_after refused_metadata_world 100 100 None 0 1
        (new_scraper True Missing Missing []))
     = Holds \<lparr>current_category_idx = 0, current_build_idx = 1, total_categories = 1,
              total_builds_processed = 2\<rparr>
   \<and> metadata_file
       (scrape_killed_after refused_metadata_world 100 100 None 0 1
          (new_scraper True Missing Missing []))
     = Missing
   \<and> checkpoint_file
       (scrape_killed_after three_builds_world 100 100 None 0 1
          (new_scraper True Missing Missing []))
     = Holds \<lparr>current_category_idx = 0, current_build_idx = 1, total_categories = 1,
              total_builds_processed = 2\<rparr>
   \<and> checkpoint_file
       (scrape_killed_after three_builds_world 100 100 None 0 0
          (restart True
             (scrape_killed_after three_builds_world 100 100 None 0 1
                (new_scraper True Missing Missing []))))
     = Holds \<lparr>current_category_idx = 0, current_build_idx = 0, total_categories = 1,
              total_builds_processed = 3\<rparr>"
proof -
  have a: "checkpoint_file
     (scrape_killed_after refused_metadata_world 100 100 None 0 1
        (new_scraper True Missing Missing []))
     = Holds \<lparr>current_category_idx = 0, current_build_idx = 1, total_categories = 1,
              total_builds_processed = 2\<rparr>"
    by code_simp
  have b: "metadata_file
       (scrape_killed_after refused_metadata_world 100 100 None 0 1
          (new_scraper True Missing Missing []))
     = Missing"
    by code_simp
  have c: "checkpoint_file
       (scrape_killed_after three_builds_world 100 100 None 0 1
          (new_scraper True Missing Missing []))
     = Holds \<lparr>current_category_idx = 0, current_build_idx = 1, total_categories = 1,
              total_builds_processed = 2\<rparr>"
    by code_simp
  have d: "checkpoint_file
       (scrape_killed_after three_builds_world 100 100 None 0 0
          (restart True
             (scrape_killed_after three_builds_world 100 100 None 0 1
                (new_scraper True Missing Missing []))))
     = Holds \<lparr>current_category_idx = 0, current_build_idx = 0, total_categories = 1,
              total_builds_processed = 3\<rparr>"
    by code_simp
  show ?thesis by (intro conjI) (rule a, rule b, rule c, rule d)
qed

section \<open>Exceptions in the loops\<close>







section \<open>What is stored\<close>

lemma build_of_item_valid:
  "build_of_item w u item = Some b \<Longrightarrow> has_tags_and_images b \<and> build_url b \<noteq> []"
  by (auto simp: build_of_item_def extract_build_info_def extract_build_info_body_def
        extract_images_and_tags_def has_tags_and_images_def
      split: option.splits if_splits prod.splits sum.splits)

lemma extract_builds_valid:
  "b \<in> set (extract_builds_from_category w u) \<Longrightarrow> has_tags_and_images b \<and> build_url b \<noteq> []"
  by (auto simp: extract_builds_from_category_def List.map_filter_def
      split: option.splits dest: build_of_item_valid)

lemma set_py_slice_to: "set (py_slice_to n xs) \<subseteq> set xs"
  by (auto simp: py_slice_to_def dest: in_set_takeD)

lemma category_builds_valid:
  "b \<in> set (category_builds w mb cats c) \<Longrightarrow> has_tags_and_images b"
  using set_py_slice_to[of mb "extract_builds_from_category w (cats ! c)"] extract_builds_valid
  unfolding category_builds_def by blast

lemma only_fetches_no_save: "only_fetches evs \<Longrightarrow> EvSaveMetadata m \<notin> set evs"
  by (induction evs) auto

lemma appended_valid_refl: "appended_valid m0 m0"
  by (simp add: appended_valid_def)

lemma appended_valid_snoc:
  "appended_valid m0 m \<Longrightarrow> has_tags_and_images r \<Longrightarrow> appended_valid m0 (m @ [r])"
  by (auto simp: appended_valid_def)

lemma downloaded_build_valid:
  "has_tags_and_images bld \<Longrightarrow>
   has_tags_and_images (fst (download_all_images_for_build w bld g st))"
  by (simp add: has_tags_and_images_def download_all_fields)

text \<open>The invariant of the loops: the metadata in memory and every list handed to
  \<^verbatim>\<open>_save_metadata\<close> since the trace \<open>tr0\<close> extend the metadata \<open>m0\<close> by validated builds
  only.\<close>

lemma process_build_stores_valid:
  assumes "has_tags_and_images bld"
    and "appended_valid m0 (metadata (fst sr))"
    and "\<exists>evs. trace (fst sr) = tr0 @ evs
            \<and> (\<forall>m. EvSaveMetadata m \<in> set evs \<longrightarrow> appended_valid m0 m)"
  shows "appended_valid m0 (metadata (fst (process_build w ld n c b bld sr)))
         \<and> (\<exists>evs. trace (fst (process_build w ld n c b bld sr)) = tr0 @ evs
              \<and> (\<forall>m. EvSaveMetadata m \<in> set evs \<longrightarrow> appended_valid m0 m))"
proof -
  obtain st res where sr: "sr = (st, res)" by (cases sr)
  let ?bld' = "fst (download_all_images_for_build w bld (total_builds res) st)"
  let ?st' = "fst (process_build w ld n c b bld (st, res))"
  have v: "appended_valid m0 (metadata st @ [?bld'])"
    using assms(1,2) by (simp add: sr appended_valid_snoc downloaded_build_valid)
  have 1: "appended_valid m0 (metadata ?st')"
    using v assms(2) by (simp add: sr process_build_metadata)
  from assms(3) obtain e0 where e0: "trace st = tr0 @ e0"
    "\<forall>m. EvSaveMetadata m \<in> set e0 \<longrightarrow> appended_valid m0 m"
    unfolding sr by auto
  from process_build_trace[of w ld n c b bld st res]
  obtain evs where f: "only_fetches evs"
    and t: "trace ?st' = trace st @ evs @
         (if ld \<and> item_raises w c b
          then [EvSaveCheckpoint \<lparr>current_category_idx = c, current_build_idx = b,
                  total_categories = n, total_builds_processed = length (metadata st)\<rparr>]
          else [EvSaveMetadata (metadata st @ [?bld']),
                EvSaveCheckpoint \<lparr>current_category_idx = c, current_build_idx = b,
                  total_categories = n, total_builds_processed = Suc (length (metadata st))\<rparr>])"
    by blast
  let ?tail = "evs @
         (if ld \<and> item_raises w c b
          then [EvSaveCheckpoint \<lparr>current_category_idx = c, current_build_idx = b,
                  total_categories = n, total_builds_processed = length (metadata st)\<rparr>]
          else [EvSaveMetadata (metadata st @ [?bld']),
                EvSaveCheckpoint \<lparr>current_category_idx = c, current_build_idx = b,
                  total_categories = n, total_builds_processed = Suc (length (metadata st))\<rparr>])"
  have "\<forall>m. EvSaveMetadata m \<in> set ?tail \<longrightarrow> appended_valid m0 m"
    using only_fetches_no_save[OF f] v by (auto split: if_splits)
  with e0(2) have "\<forall>m. EvSaveMetadata m \<in> set (e0 @ ?tail) \<longrightarrow> appended_valid m0 m"
    by auto
  moreover have "trace ?st' = tr0 @ (e0 @ ?tail)" using t e0(1) by simp
  ultimately have 2: "\<exists>evs. trace ?st' = tr0 @ evs
              \<and> (\<forall>m. EvSaveMetadata m \<in> set evs \<longrightarrow> appended_valid m0 m)"
    by blast
  show ?thesis using 1 2 by (simp add: sr)
qed

lemma process_category_stores_valid:
  assumes "appended_valid m0 (metadata (fst sr))"
    and "\<exists>evs. trace (fst sr) = tr0 @ evs
            \<and> (\<forall>m. EvSaveMetadata m \<in> set evs \<longrightarrow> appended_valid m0 m)"
  shows "appended_valid m0 (metadata (fst (process_category w ld mb cats c sr)))
         \<and> (\<exists>evs. trace (fst (process_category w ld mb cats c sr)) = tr0 @ evs
              \<and> (\<forall>m. EvSaveMetadata m \<in> set evs \<longrightarrow> appended_valid m0 m))"
proof (cases "category_raises w c")
  case True
  obtain st res where sr: "sr = (st, res)" by (cases sr)
  from assms(2) obtain e0 where e0: "trace st = tr0 @ e0"
    "\<forall>m. EvSaveMetadata m \<in> set e0 \<longrightarrow> appended_valid m0 m"
    unfolding sr by auto
  let ?e = "e0 @ [EvSaveCheckpoint \<lparr>current_category_idx = c, current_build_idx = 0,
                  total_categories = length cats, total_builds_processed = length (metadata st)\<rparr>]"
  have "trace (fst (process_category w ld mb cats c sr)) = tr0 @ ?e"
    using True e0(1) by (simp add: sr process_category_raises)
  moreover have "\<forall>m. EvSaveMetadata m \<in> set ?e \<longrightarrow> appended_valid m0 m"
    using e0(2) by auto
  ultimately have "\<exists>evs. trace (fst (process_category w ld mb cats c sr)) = tr0 @ evs
              \<and> (\<forall>m. EvSaveMetadata m \<in> set evs \<longrightarrow> appended_valid m0 m)"
    by blast
  then show ?thesis using True assms(1) by (simp add: sr process_category_raises)
next
  case False
  let ?P = "\<lambda>sr :: scraper \<times> results. appended_valid m0 (metadata (fst sr))
         \<and> (\<exists>evs. trace (fst sr) = tr0 @ evs
              \<and> (\<forall>m. EvSaveMetadata m \<in> set evs \<longrightarrow> appended_valid m0 m))"
  have "?P (process_builds w ld (length cats) c 0 (category_builds w mb cats c) sr)"
  proof (rule process_builds_invariant[where P="?P"])
    show "?P sr" using assms by simp
  next
    fix b bld sr'
    assume "bld \<in> set (category_builds w mb cats c)" and p: "?P sr'"
    then have "has_tags_and_images bld" by (simp add: category_builds_valid)
    then show "?P (process_build w ld (length cats) c b bld sr')"
      using p process_build_stores_valid[of bld m0 sr' tr0 w ld "length cats" c b] by blast
  qed
  then show ?thesis using False by (simp add: process_category_ok)
qed

lemma scrape_stores_valid:
  "appended_valid (metadata (fst (fst (scrape_start r st)))) (metadata (snd (scrape w mc mb r st)))
   \<and> (\<forall>m. EvSaveMetadata m \<in> set (new_events st (snd (scrape w mc mb r st))) \<longrightarrow>
          appended_valid (metadata (fst (fst (scrape_start r st)))) m)"
proof (cases "get_category_urls w mc = []")
  case True
  then show ?thesis by (simp add: scrape_no_events) (simp add: scrape_empty appended_valid_refl)
next
  case False
  let ?m0 = "metadata (fst (fst (scrape_start r st)))"
  let ?cats = "get_category_urls w mc"
  let ?P = "\<lambda>sr :: scraper \<times> results. appended_valid ?m0 (metadata (fst sr))
         \<and> (\<exists>evs. trace (fst sr) = trace st @ evs
              \<and> (\<forall>m. EvSaveMetadata m \<in> set evs \<longrightarrow> appended_valid ?m0 m))"
  let ?sr2 = "fold (process_category w (resuming r st) mb ?cats) [snd (scrape_start r st) ..< length ?cats]
                (fst (scrape_start r st))"
  have "?P ?sr2"
  proof (rule categories_invariant[where P="?P"])
    have "trace (fst (fst (scrape_start r st))) = trace st @ []" by simp
    then show "?P (fst (scrape_start r st))"
      using appended_valid_refl[of ?m0] by fastforce
  next
    fix c sr
    assume "?P sr"
    then show "?P (process_category w (resuming r st) mb ?cats c sr)"
      using process_category_stores_valid[of ?m0 sr "trace st" w "resuming r st" mb ?cats c] by blast
  qed
  then obtain evs where m: "appended_valid ?m0 (metadata (fst ?sr2))"
    and t: "trace (fst ?sr2) = trace st @ evs"
    and e: "\<forall>m. EvSaveMetadata m \<in> set evs \<longrightarrow> appended_valid ?m0 m"
    by blast
  have "trace (snd (scrape w mc mb r st)) = trace st @ (evs @ [EvClearCheckpoint])"
    using False t by (simp add: scrape_nonempty clear_checkpoint_def)
  then have "new_events st (snd (scrape w mc mb r st)) = evs @ [EvClearCheckpoint]"
    by (rule new_events_append)
  moreover have "metadata (snd (scrape w mc mb r st)) = metadata (fst ?sr2)"
    using False by (simp add: scrape_nonempty clear_checkpoint_def)
  ultimately show ?thesis using m e by auto
qed

text \<open>
  Claim C2, as the code has it. Every build that \<^verbatim>\<open>extract_builds_from_category\<close>
  returns has at least one tag and at least one image reference; a build that lacks one
  of them is dropped there. The metadata at the end of a run, and every list of records
  handed to \<^verbatim>\<open>_save_metadata\<close> during the run, consist of the records the run began
  with followed by records that have at least one tag and at least one image reference.
  The list of local image paths of a stored record may be empty.
\<close>

theorem stored_builds_have_tags_and_images:
  "(\<forall>b \<in> set (extract_builds_from_category w u). tags b \<noteq> [] \<and> image_urls b \<noteq> [])
   \<and> (\<exists>new. metadata (snd (scrape w mc mb r st)) = metadata (fst (fst (scrape_start r st))) @ new
          \<and> (\<forall>b \<in> set new. tags b \<noteq> [] \<and> image_urls b \<noteq> []))
   \<and> (\<forall>m. EvSaveMetadata m \<in> set (new_events st (snd (scrape w mc mb r st))) \<longrightarrow>
        (\<exists>new. m = metadata (fst (fst (scrape_start r st))) @ new
          \<and> (\<forall>b \<in> set new. tags b \<noteq> [] \<and> image_urls b \<noteq> [])))"
  using scrape_stores_valid[of r st w mc mb] extract_builds_valid[of _ w u]
  unfolding appended_valid_def has_tags_and_images_def by blast

theorem stored_builds_have_tags_and_images_witness:
  "hd (extract_builds_from_category scenario_world ''A'')
     \<in> set (extract_builds_from_category scenario_world ''A'')
   \<and> tags (hd (extract_builds_from_category scenario_world ''A'')) \<noteq> []
   \<and> image_urls (hd (extract_builds_from_category scenario_world ''A'')) \<noteq> []
   \<and> EvSaveMetadata [old_build] \<in>
       set (new_events (new_scraper True Missing Missing [])
              (snd (scrape scenario_world 100 100 None (new_scraper True Missing Missing []))))
   \<and> (\<exists>new. [old_build] =
          metadata (fst (fst (scrape_start None (new_scraper True Missing Missing [])))) @ new
          \<and> (\<forall>b \<in> set new. tags b \<noteq> [] \<and> image_urls b \<noteq> []))"
proof -
  have a: "hd (extract_builds_from_category scenario_world ''A'')
     \<in> set (extract_builds_from_category scenario_world ''A'')"
    by code_simp
  have b: "EvSaveMetadata [old_build] \<in>
       set (new_events (new_scraper True Missing Missing [])
              (snd (scrape scenario_world 100 100 None (new_scraper True Missing Missing []))))"
    by code_simp
  note T = stored_builds_have_tags_and_images
        [where w=scenario_world and u="''A''" and mc=100 and mb=100 and r=None
           and st="new_scraper True Missing Missing []"]
  show ?thesis using a b T by blast
qed

text \<open>The claim as stated fails: when every download of a build fails, the build is
  counted as failed and is stored all the same, with no local image path.\<close>

theorem build_without_local_images_is_stored:
  "map local_image_paths
     (metadata (snd (scrape broken_images_world 100 100 None
                       (new_scraper True Missing Missing [])))) = [[]]
   \<and> metadata_file (snd (scrape broken_images_world 100 100 None
                       (new_scraper True Missing Missing [])))
     = Holds (metadata (snd (scrape broken_images_world 100 100 None
                       (new_scraper True Missing Missing []))))
   \<and> failed_builds (fst (scrape broken_images_world 100 100 None
                       (new_scraper True Missing Missing []))) = 1"
  by code_simp

section \<open>The scenario of the specification\<close>

lemma fresh_scrape_total:
  assumes "\<not> resuming r st"
  shows "total_builds (fst (scrape w mc mb r st)) =
     (if get_category_urls w mc = [] then 0
      else validated_builds w mb (get_category_urls w mc)
             [0 ..< length (get_category_urls w mc)])"
proof (cases "get_category_urls w mc = []")
  case True
  then show ?thesis
    using assms by (simp add: scrape_empty scrape_start_fresh initial_results_def)
next
  case False
  then show ?thesis
    using assms
    by (simp add: scrape_nonempty scrape_start_fresh categories_total validated_builds_def
          initial_results_def)
qed

text \<open>
  Claim C3, as the code has it. In the scenario (categories A and B; A lists i1 with tag
  t1 and image u1, and i2 with image u2 and no tag; B lists nothing; the download of u1
  succeeds) the run stores exactly one record, that of i1, with one image; i2 is dropped
  by the validation, and the summary is \<open>total_builds = 1\<close>, \<open>successful_builds = 1\<close>,
  \<open>failed_builds = 0\<close>. In general a build dropped by the validation is not counted at
  all: the total of a run that does not resume is the number of builds that passed the
  validation in the categories that did not raise, every one of them has a tag and an
  image reference, and the successful and failed counts add up to that total.
\<close>

theorem validation_discard_not_counted:
  "fst (scrape scenario_world 100 100 None (new_scraper True Missing Missing [])) =
     \<lparr>total_builds = 1, successful_builds = 1, failed_builds = 0,
      total_images_downloaded = 1\<rparr>
   \<and> metadata (snd (scrape scenario_world 100 100 None (new_scraper True Missing Missing [])))
     = [old_build]
   \<and> images_count old_build = 1 \<and> build_url old_build = ''i1''
   \<and> (\<not> resuming r st \<longrightarrow>
        total_builds (fst (scrape w mc mb r st)) =
          (if get_category_urls w mc = [] then 0
           else validated_builds w mb (get_category_urls w mc)
                  [0 ..< length (get_category_urls w mc)])
        \<and> successful_builds (fst (scrape w mc mb r st))
            + failed_builds (fst (scrape w mc mb r st))
          = total_builds (fst (scrape w mc mb r st)))
   \<and> (\<forall>b \<in> set (category_builds w mb cats c). tags b \<noteq> [] \<and> image_urls b \<noteq> [])"
proof -
  have 1: "fst (scrape scenario_world 100 100 None (new_scraper True Missing Missing [])) =
     \<lparr>total_builds = 1, successful_builds = 1, failed_builds = 0,
      total_images_downloaded = 1\<rparr>"
    by code_simp
  have 2: "metadata (snd (scrape scenario_world 100 100 None
              (new_scraper True Missing Missing []))) = [old_build]"
    by code_simp
  have 3: "images_count old_build = 1 \<and> build_url old_build = ''i1''"
    by (simp add: old_build_def)
  have 4: "\<not> resuming r st \<Longrightarrow>
        successful_builds (fst (scrape w mc mb r st))
            + failed_builds (fst (scrape w mc mb r st))
          = total_builds (fst (scrape w mc mb r st))"
    using scrape_counters[of r st w mc mb] by (simp add: scrape_start_fresh initial_results_def)
  have 5: "\<forall>b \<in> set (category_builds w mb cats c). tags b \<noteq> [] \<and> image_urls b \<noteq> []"
    using category_builds_valid[of _ w mb cats c] by (simp add: has_tags_and_images_def)
  show ?thesis
    using 1 2 3 4 5 fresh_scrape_total[of r st w mc mb] by blast
qed

theorem validation_discard_not_counted_witness:
  "\<not> resuming None (new_scraper True Missing Missing [])
   \<and> get_category_urls scenario_world 100 = [''A'', ''B'']
   \<and> validated_builds scenario_world 100 [''A'', ''B''] [0 ..< 2] = 1
   \<and> total_builds (fst (scrape scenario_world 100 100 None
        (new_scraper True Missing Missing []))) = 1
   \<and> hd (category_builds scenario_world 100 [''A'', ''B''] 0)
        \<in> set (category_builds scenario_world 100 [''A'', ''B''] 0)
   \<and> tags (hd (category_builds scenario_world 100 [''A'', ''B''] 0)) \<noteq> []"
proof -
  have h1: "\<not> resuming None (new_scraper True Missing Missing [])"
    by (simp add: resuming_def new_scraper_def load_checkpoint_def load_checkpoint_body_def)
  have h2: "get_category_urls scenario_world 100 = [''A'', ''B'']"
    by (simp add: get_category_urls_def get_category_urls_body_def scenario_world_def
          reliable_world_def py_slice_to_def)
  have h3: "validated_builds scenario_world 100 [''A'', ''B''] [0 ..< 2] = 1"
    by code_simp
  have h4: "hd (category_builds scenario_world 100 [''A'', ''B''] 0)
        \<in> set (category_builds scenario_world 100 [''A'', ''B''] 0)"
    by code_simp
  note T = validation_discard_not_counted
      [where w=scenario_world and mc=100 and mb=100 and r=None
         and st="new_scraper True Missing Missing []" and cats="[''A'', ''B'']" and c=0]
  have t1: "total_builds (fst (scrape scenario_world 100 100 None
        (new_scraper True Missing Missing []))) = 1"
    using T by simp
  have t2: "tags (hd (category_builds scenario_world 100 [''A'', ''B''] 0)) \<noteq> []"
    using T h4 by blast
  show ?thesis using h1 h2 h3 h4 t1 t2 by simp
qed

text \<open>The summary that the claim states for the scenario is not the one the code
  returns: the dropped build is counted neither in the total nor as failed.\<close>

theorem scenario_summary_counts_one_build:
  "total_builds (fst (scrape scenario_world 100 100 None
      (new_scraper True Missing Missing []))) = 1
   \<and> failed_builds (fst (scrape scenario_world 100 100 None
      (new_scraper True Missing Missing []))) = 0
   \<and> \<not> (total_builds (fst (scrape scenario_world 100 100 None
            (new_scraper True Missing Missing []))) = 2
        \<and> failed_builds (fst (scrape scenario_world 100 100 None
            (new_scraper True Missing Missing []))) = 1)"
  by code_simp

section \<open>Acquiring images\<close>

lemma acquire_image_ok_member:
  "image_ok w u \<Longrightarrow> p \<in> set (fst (acquire_image w u p acc))"
  by (cases acc) (simp add: acquire_image_def download_image_def Let_def)

lemma acquire_image_paths_grow: "set (fst acc) \<subseteq> set (fst (acquire_image w u p acc))"
  by (cases acc) (auto simp: acquire_image_def download_image_def Let_def)

lemma download_images_paths_grow:
  "set (fst acc) \<subseteq> set (fst (download_images w d i urls acc))"
proof (induction urls arbitrary: i acc)
  case Nil
  show ?case by simp
next
  case (Cons u urls)
  show ?case
    using Cons.IH[where i="Suc i" and acc="acquire_image w u (image_path d i) acc"]
      acquire_image_paths_grow[of acc w u "image_path d i"]
    by auto
qed

lemma download_images_isolated:
  "j < length urls \<Longrightarrow> image_ok w (urls ! j) \<Longrightarrow>
   image_path d (i + j) \<in> set (fst (download_images w d i urls acc))"
proof (induction urls arbitrary: i j acc)
  case Nil
  then show ?case by simp
next
  case (Cons u urls)
  show ?case
  proof (cases j)
    case 0
    then have "image_path d i \<in> set (fst (acquire_image w u (image_path d i) acc))"
      using Cons.prems by (simp add: acquire_image_ok_member)
    then show ?thesis
      using 0 download_images_paths_grow[of "acquire_image w u (image_path d i) acc" w d "Suc i" urls]
      by auto
  next
    case (Suc k)
    then have "k < length urls" "image_ok w (urls ! k)" using Cons.prems by simp_all
    from Cons.IH[OF this, where i="Suc i" and acc="acquire_image w u (image_path d i) acc"]
    show ?thesis using Suc by simp
  qed
qed

lemma acquire_existing:
  "p \<in> set (image_files st) \<Longrightarrow> acquire_image w u p (ps, st) = (ps @ [p], st)"
  by (simp add: acquire_image_def)

lemma acquire_twice_ok:
  assumes "p \<notin> set (image_files st)" "image_ok w u"
  shows "fetch_count (new_events st
           (snd (acquire_image w u p (acquire_image w u p (ps, st))))) = 1"
  using assms
  by (simp add: acquire_image_def download_image_def Let_def new_events_def fetch_count_def)

lemma acquire_twice_failing:
  assumes "p \<notin> set (image_files st)" "\<not> image_ok w u"
  shows "fetch_count (new_events st
           (snd (acquire_image w u p (acquire_image w u p (ps, st))))) = 2"
  using assms
  by (simp add: acquire_image_def download_image_def Let_def new_events_def fetch_count_def)

text \<open>
  Claim C8, as the code has it. When a file exists at the destination path the image is
  taken as it is: no request is made and nothing changes. Acquiring the same URL and
  destination twice makes exactly one request when the file was absent and the first
  download succeeds; it makes two requests when the first download fails, since a failed
  download leaves no file. A failing image does not stop the loop: every image of the
  build whose download succeeds ends up among the local paths, whatever happened to
  the images before it.
\<close>

theorem image_fetch_skipped_when_file_exists:
  "(p \<in> set (image_files st) \<longrightarrow> acquire_image w u p (ps, st) = (ps @ [p], st))
   \<and> (p \<notin> set (image_files st) \<and> image_ok w u \<longrightarrow>
        fetch_count (new_events st
          (snd (acquire_image w u p (acquire_image w u p (ps, st))))) = 1)
   \<and> (p \<notin> set (image_files st) \<and> \<not> image_ok w u \<longrightarrow>
        fetch_count (new_events st
          (snd (acquire_image w u p (acquire_image w u p (ps, st))))) = 2)
   \<and> (\<forall>j < length urls. image_ok w (urls ! j) \<longrightarrow>
        image_path d (i + j) \<in> set (fst (download_images w d i urls (ps, st))))"
  using acquire_existing[of p st w u ps] acquire_twice_ok[of p st w u ps]
    acquire_twice_failing[of p st w u ps] download_images_isolated[of _ urls w d i "(ps, st)"]
  by blast

theorem image_fetch_skipped_when_file_exists_witness:
  "''p'' \<in> set (image_files (new_scraper True Missing Missing [''p'']))
   \<and> acquire_image scenario_world ''u1'' ''p'' ([], new_scraper True Missing Missing [''p''])
       = ([''p''], new_scraper True Missing Missing [''p''])
   \<and> ''q'' \<notin> set (image_files (new_scraper True Missing Missing [''p'']))
   \<and> image_ok scenario_world ''u1''
   \<and> fetch_count (new_events (new_scraper True Missing Missing [''p''])
          (snd (acquire_image scenario_world ''u1'' ''q''
                  (acquire_image scenario_world ''u1'' ''q''
                     ([], new_scraper True Missing Missing [''p'']))))) = 1
   \<and> \<not> image_ok broken_images_world ''u1''
   \<and> fetch_count (new_events (new_scraper True Missing Missing [''p''])
          (snd (acquire_image broken_images_world ''u1'' ''q''
                  (acquire_image broken_images_world ''u1'' ''q''
                     ([], new_scraper True Missing Missing [''p'']))))) = 2
   \<and> (1::nat) < length [''u0'', ''u1'']
   \<and> image_ok (scenario_world\<lparr>image_ok := (\<lambda>u. u = ''u1'')\<rparr>) ([''u0'', ''u1''] ! 1)
   \<and> image_path ''d'' (0 + 1) \<in>
       set (fst (download_images (scenario_world\<lparr>image_ok := (\<lambda>u. u = ''u1'')\<rparr>) ''d'' 0
                   [''u0'', ''u1''] ([], new_scraper True Missing Missing [''p''])))"
proof -
  have h1: "''p'' \<in> set (image_files (new_scraper True Missing Missing [''p'']))"
    and h2: "''q'' \<notin> set (image_files (new_scraper True Missing Missing [''p'']))"
    by (simp_all add: new_scraper_def)
  have h3: "image_ok scenario_world ''u1''"
    by (simp add: scenario_world_def reliable_world_def)
  have h4: "\<not> image_ok broken_images_world ''u1''"
    by (simp add: broken_images_world_def)
  have h5: "(1::nat) < length [''u0'', ''u1'']"
    and h6: "image_ok (scenario_world\<lparr>image_ok := (\<lambda>u. u = ''u1'')\<rparr>) ([''u0'', ''u1''] ! 1)"
    by simp_all
  note A = image_fetch_skipped_when_file_exists
      [where w=scenario_world and u="''u1''" and p="''p''" and ps="[]"
         and st="new_scraper True Missing Missing [''p'']"]
  note B = image_fetch_skipped_when_file_exists
      [where w=scenario_world and u="''u1''" and p="''q''" and ps="[]"
         and st="new_scraper True Missing Missing [''p'']"]
  note C = image_fetch_skipped_when_file_exists
      [where w=broken_images_world and u="''u1''" and p="''q''" and ps="[]"
         and st="new_scraper True Missing Missing [''p'']"]
  note D = image_fetch_skipped_when_file_exists
      [where w="scenario_world\<lparr>image_ok := (\<lambda>u. u = ''u1'')\<rparr>" and d="''d''" and i=0
         and urls="[''u0'', ''u1'']" and ps="[]"
         and st="new_scraper True Missing Missing [''p'']"]
  have a: "acquire_image scenario_world ''u1'' ''p'' ([], new_scraper True Missing Missing [''p''])
       = ([] @ [''p''], new_scraper True Missing Missing [''p''])"
    using A h1 by blast
  have b: "fetch_count (new_events (new_scraper True Missing Missing [''p''])
          (snd (acquire_image scenario_world ''u1'' ''q''
                  (acquire_image scenario_world ''u1'' ''q''
                     ([], new_scraper True Missing Missing [''p'']))))) = 1"
    using B h2 h3 by blast
  have c: "fetch_count (new_events (new_scraper True Missing Missing [''p''])
          (snd (acquire_image broken_images_world ''u1'' ''q''
                  (acquire_image broken_images_world ''u1'' ''q''
                     ([], new_scraper True Missing Missing [''p'']))))) = 2"
    using C h2 h4 by blast
  have d: "image_path ''d'' (0 + 1) \<in>
       set (fst (download_images (scenario_world\<lparr>image_ok := (\<lambda>u. u = ''u1'')\<rparr>) ''d'' 0
                   [''u0'', ''u1''] ([], new_scraper True Missing Missing [''p''])))"
    using D h5 h6 by blast
  show ?thesis using h1 h2 h3 h4 h5 h6 a b c d by simp
qed

text \<open>The claim as stated fails: an image whose download fails is requested again by
  the second acquisition.\<close>

theorem failing_image_is_fetched_twice:
  "fetch_count (trace
     (snd (acquire_image broken_images_world ''u1'' ''build_00000_one/image_000.jpg''
             (acquire_image broken_images_world ''u1'' ''build_00000_one/image_000.jpg''
                ([], new_scraper True Missing Missing []))))) = 2"
  by code_simp

section \<open>Resuming an interrupted run\<close>

text \<open>
  Claim C1 does not hold for the code. The checkpoint records the position of the build
  (\<^verbatim>\<open>current_build_idx\<close>), but \<^verbatim>\<open>scrape\<close> reads only \<^verbatim>\<open>current_category_idx\<close>
  from it: the resumed run loads the saved metadata and processes the interrupted
  category again from its first build. In a category with three builds, a run killed
  after the second build and then resumed stores the first two builds twice and requests
  their images again, where the uninterrupted run stores each build once.
\<close>

theorem resume_repeats_finished_builds:
  "checkpoint_file
     (scrape_killed_after three_builds_world 100 100 None 0 1
        (new_scraper True Missing Missing []))
     = Holds \<lparr>current_category_idx = 0, current_build_idx = 1, total_categories = 1,
              total_builds_processed = 2\<rparr>
   \<and> map build_url
       (metadata (snd (scrape three_builds_world 100 100 None
                         (new_scraper True Missing Missing []))))
     = [''i1'', ''i2'', ''i3'']
   \<and> map build_url
       (metadata (snd (scrape three_builds_world 100 100 None
          (restart True
             (scrape_killed_after three_builds_world 100 100 None 0 1
                (new_scraper True Missing Missing []))))))
     = [''i1'', ''i2'', ''i1'', ''i2'', ''i3'']
   \<and> \<not> distinct (map build_url
       (metadata (snd (scrape three_builds_world 100 100 None
          (restart True
             (scrape_killed_after three_builds_world 100 100 None 0 1
                (new_scraper True Missing Missing [])))))))
   \<and> fetch_count (trace (snd (scrape three_builds_world 100 100 None
          (restart True
             (scrape_killed_after three_builds_world 100 100 None 0 1
                (new_scraper True Missing Missing [])))))) = 3"
proof -
  have k: "restart True
             (scrape_killed_after three_builds_world 100 100 None 0 1
                (new_scraper True Missing Missing []))
           = \<lparr>resume_flag = True,
              checkpoint_data = Some \<lparr>current_category_idx = 0, current_build_idx = 1,
                                      total_categories = 1, total_builds_processed = 2\<rparr>,
              metadata = [],
              checkpoint_file = Holds \<lparr>current_category_idx = 0, current_build_idx = 1,
                                      total_categories = 1, total_builds_processed = 2\<rparr>,
              metadata_file = Holds
                [\<lparr>title = ''one'', build_url = ''i1'', tags = [''t1''], category_url = ''A'',
                  image_urls = [''u1''],
                  local_image_paths = [''build_00000_one/image_000.jpg''],
                  images_count = 1, build_directory = Some ''build_00000_one''\<rparr>,
                 \<lparr>title = ''two'', build_url = ''i2'', tags = [''t2''], category_url = ''A'',
                  image_urls = [''u2''],
                  local_image_paths = [''build_00001_two/image_000.jpg''],
                  images_count = 1, build_directory = Some ''build_00001_two''\<rparr>],
              image_files = [''build_00001_two/image_000.jpg'', ''build_00000_one/image_000.jpg''],
              trace = []\<rparr>"
    by code_simp
  have c: "checkpoint_file
     (scrape_killed_after three_builds_world 100 100 None 0 1
        (new_scraper True Missing Missing []))
     = Holds \<lparr>current_category_idx = 0, current_build_idx = 1, total_categories = 1,
              total_builds_processed = 2\<rparr>"
    using arg_cong[OF k, of checkpoint_file] by (simp add: restart_def new_scraper_def)
  have u: "map build_url
       (metadata (snd (scrape three_builds_world 100 100 None
                         (new_scraper True Missing Missing []))))
     = [''i1'', ''i2'', ''i3'']"
    by code_simp
  have r: "map build_url
       (metadata (snd (scrape three_builds_world 100 100 None
          (restart True
             (scrape_killed_after three_builds_world 100 100 None 0 1
                (new_scraper True Missing Missing []))))))
     = [''i1'', ''i2'', ''i1'', ''i2'', ''i3'']"
    unfolding k by code_simp
  have f: "fetch_count (trace (snd (scrape three_builds_world 100 100 None
          (restart True
             (scrape_killed_after three_builds_world 100 100 None 0 1
                (new_scraper True Missing Missing [])))))) = 3"
    unfolding k by code_simp
  have d: "\<not> distinct (map build_url
       (metadata (snd (scrape three_builds_world 100 100 None
          (restart True
             (scrape_killed_after three_builds_world 100 100 None 0 1
                (new_scraper True Missing Missing [])))))))"
    by (subst r) simp
  show ?thesis by (intro conjI) (rule c, rule u, rule r, rule d, rule f)
qed

end
